theory Spec2Isabelle
  imports
    Main
    "HOL-Library.Sublist"
    "HOL-Library.Multiset"
    "HOL-Library.Char_ord"
    "HOL-Library.List_Lexorder"
    "HOL-Library.Product_Lexorder"
begin

section \<open>Python strings\<close>

text \<open>
  A Python \<open>str\<close> is modelled as a \<open>string\<close>: a list of 8-bit characters, read as the
  code points U+0000 to U+00FF. The character predicates of the Python library that the
  program calls (\<open>str.isdigit\<close>, the white space of \<open>str.strip\<close>) hold of the same
  characters of this range as in Python. \<open>str.upper\<close> and \<open>str.lower\<close> convert the ASCII
  letters; the program uses them only to test membership in lists of ASCII words, where
  this agrees with Python on the whole range. The order on strings is the lexicographic
  order on character codes, which is the order Python uses to compare strings.
\<close>

definition NL :: char where
  "NL = CHR 0x0A"

definition startswith :: "string \<Rightarrow> string \<Rightarrow> bool" where
  "startswith s p = prefix p s"

definition upper_char :: "char \<Rightarrow> char" where
  "upper_char c =
     (let n = (of_char c :: nat) in if 97 \<le> n \<and> n \<le> 122 then char_of (n - 32) else c)"

definition upper :: "string \<Rightarrow> string" where
  "upper s = map upper_char s"

text \<open>\<open>str.rfind\<close> for a one-character pattern: the last index, \<open>None\<close> for Python's \<open>-1\<close>.\<close>

fun rfind :: "string \<Rightarrow> char \<Rightarrow> nat option" where
  "rfind [] c = None"
| "rfind (x # xs) c =
     (case rfind xs c of
        Some i \<Rightarrow> Some (Suc i)
      | None \<Rightarrow> if x = c then Some 0 else None)"

section \<open>Paths\<close>

text \<open>
  \<open>pathlib\<close> computes \<open>stem\<close> and \<open>suffix\<close> from the final component \<open>name\<close> of a
  path: with \<open>i = name.rfind('.')\<close>, the suffix is \<open>name[i:]\<close> and the stem is
  \<open>name[:i]\<close> when \<open>0 < i < len(name) - 1\<close>; otherwise the suffix is empty and the stem
  is the whole name. A path is represented by its final component wherever the program
  reads nothing else of it.
\<close>

definition stem :: "string \<Rightarrow> string" where
  "stem name =
     (case rfind name (CHR ''.'') of
        Some i \<Rightarrow> if 0 < i \<and> i + 1 < length name then take i name else name
      | None \<Rightarrow> name)"

definition suffix_of :: "string \<Rightarrow> string" where
  "suffix_of name =
     (case rfind name (CHR ''.'') of
        Some i \<Rightarrow> if 0 < i \<and> i + 1 < length name then drop i name else []
      | None \<Rightarrow> [])"

section \<open>File locator\<close>

text \<open>
  A directory is given by the list of its entry names, in the order in which the
  operating system enumerates them. Each of the eight patterns is a literal prefix
  followed by \<open>*\<close>, so \<open>directory.glob(pattern)\<close> yields the entries that start with the
  prefix, in enumeration order.
\<close>

definition doc_patterns :: "string list" where
  "doc_patterns =
     [''README'', ''INSTALL'', ''CONFIG'', ''CHEATSHEET'', ''USAGE'', ''QUICKSTART'',
      ''SETUP'', ''GETTING_STARTED'']"

definition glob :: "string list \<Rightarrow> string \<Rightarrow> string list" where
  "glob directory pat = filter (\<lambda>entry. startswith entry pat) directory"

definition collect_files :: "string list \<Rightarrow> string list" where
  "collect_files directory = concat (map (glob directory) doc_patterns)"

definition priority_order :: "string list" where
  "priority_order =
     [''README'', ''INSTALL'', ''QUICKSTART'', ''SETUP'', ''CONFIG'', ''USAGE'', ''CHEATSHEET'']"

text \<open>\<open>list.index\<close>; the program calls it only on a member of the list.\<close>

definition list_index :: "'a list \<Rightarrow> 'a \<Rightarrow> nat" where
  "list_index xs x = length (takeWhile (\<lambda>y. y \<noteq> x) xs)"

definition doc_sort_key :: "string \<Rightarrow> nat \<times> string" where
  "doc_sort_key file_name =
     (let name = upper (stem file_name) in
      if name \<in> set priority_order then (list_index priority_order name, file_name)
      else (length priority_order, file_name))"

text \<open>Python's \<open>sorted\<close> is a stable sort by the key, as \<^const>\<open>sort_key\<close> is.\<close>

definition find_doc_files :: "string list \<Rightarrow> string list" where
  "find_doc_files directory = sort_key doc_sort_key (collect_files directory)"


section \<open>More of Python's string operations\<close>

definition lower_char :: "char \<Rightarrow> char" where
  "lower_char c =
     (let n = (of_char c :: nat) in if 65 \<le> n \<and> n \<le> 90 then char_of (n + 32) else c)"

definition lower :: "string \<Rightarrow> string" where
  "lower s = map lower_char s"

text \<open>
  The white space of \<open>str.strip()\<close> and \<open>str.isspace\<close> up to U+00FF: the ASCII controls
  9 to 13 and 28 to 31, the space, the next-line control U+0085 and the no-break space
  U+00A0.
\<close>

definition isspace :: "char \<Rightarrow> bool" where
  "isspace c =
     (let n = (of_char c :: nat) in
      (9 \<le> n \<and> n \<le> 13) \<or> (28 \<le> n \<and> n \<le> 32) \<or> n = 133 \<or> n = 160)"

text \<open>
  \<open>str.isdigit\<close> up to U+00FF: the ASCII digits and the superscript digits U+00B2, U+00B3
  and U+00B9.
\<close>

definition isdigit :: "char \<Rightarrow> bool" where
  "isdigit c =
     (let n = (of_char c :: nat) in
      (48 \<le> n \<and> n \<le> 57) \<or> n = 178 \<or> n = 179 \<or> n = 185)"

text \<open>\<open>s.strip(chars)\<close> removes the leading and the trailing characters that belong to \<open>chars\<close>.\<close>

definition strip_with :: "(char \<Rightarrow> bool) \<Rightarrow> string \<Rightarrow> string" where
  "strip_with P s = rev (dropWhile P (rev (dropWhile P s)))"

definition strip :: "string \<Rightarrow> string" where
  "strip s = strip_with isspace s"

definition strip_chars :: "string \<Rightarrow> string \<Rightarrow> string" where
  "strip_chars s chars = strip_with (\<lambda>c. c \<in> set chars) s"

text \<open>\<open>s.split(sep)\<close> for a one-character separator: never empty, \<open>''.split(sep) == ['']\<close>.\<close>

fun split :: "string \<Rightarrow> char \<Rightarrow> string list" where
  "split [] sep = [[]]"
| "split (x # xs) sep =
     (let rest = split xs sep in
      if x = sep then [] # rest else (x # hd rest) # tl rest)"

text \<open>\<open>s.split(sep, 1)\<close> on a string that contains the one-character separator.\<close>

definition split_once :: "string \<Rightarrow> char \<Rightarrow> string \<times> string" where
  "split_once s sep = (takeWhile (\<lambda>c. c \<noteq> sep) s, tl (dropWhile (\<lambda>c. c \<noteq> sep) s))"

fun join :: "string \<Rightarrow> string list \<Rightarrow> string" where
  "join sep [] = []"
| "join sep [x] = x"
| "join sep (x # y # ys) = x @ sep @ join sep (y # ys)"

text \<open>\<open>sub in s\<close> on strings.\<close>

fun contains :: "string \<Rightarrow> string \<Rightarrow> bool" where
  "contains [] sub = (sub = [])"
| "contains (x # xs) sub = (prefix sub (x # xs) \<or> contains xs sub)"

text \<open>
  \<open>s.replace(old, new)\<close>: the occurrences of \<open>old\<close> are found from the left and do not
  overlap; an empty \<open>old\<close> matches before every character and at the end.
\<close>

function replace :: "string \<Rightarrow> string \<Rightarrow> string \<Rightarrow> string" where
  "replace s old new =
     (if old = [] then new @ concat (map (\<lambda>c. c # new) s)
      else if s = [] then []
      else if prefix old s then new @ replace (drop (length old) s) old new
      else hd s # replace (tl s) old new)"
  by pat_completeness auto
termination
  by (relation "measure (\<lambda>(s, old, new). length s)") auto

declare replace.simps [simp del]

text \<open>The format specification \<open>{:<15}\<close>: pad on the right to the width, never truncate.\<close>

definition ljust :: "string \<Rightarrow> nat \<Rightarrow> string" where
  "ljust s width = s @ replicate (width - length s) (CHR '' '')"

section \<open>Colors\<close>

definition ESC :: char where
  "ESC = CHR 0x1B"

definition RESET :: string where "RESET = ESC # ''[0m''"
definition BOLD :: string where "BOLD = ESC # ''[1m''"
definition RED :: string where "RED = ESC # ''[91m''"
definition GREEN :: string where "GREEN = ESC # ''[92m''"
definition YELLOW :: string where "YELLOW = ESC # ''[93m''"
definition BLUE :: string where "BLUE = ESC # ''[94m''"
definition PURPLE :: string where "PURPLE = ESC # ''[95m''"
definition CYAN :: string where "CYAN = ESC # ''[96m''"

section \<open>Content reader\<close>

text \<open>
  Opening a file and reading it in text mode either yields the decoded text or raises.
  Every exception that \<open>open\<close> and \<open>read\<close> raise is an instance of \<open>Exception\<close>; the
  program tells \<open>UnicodeDecodeError\<close> from the rest. An exception carries the text that
  \<open>str(e)\<close> returns. The outcome of each of the two attempts is given by the environment.
\<close>

datatype exn = UnicodeDecodeError string | OtherException string

fun exn_str :: "exn \<Rightarrow> string" where
  "exn_str (UnicodeDecodeError msg) = msg"
| "exn_str (OtherException msg) = msg"

datatype encoding = Utf8 | Latin1

definition read_file :: "(encoding \<Rightarrow> exn + string) \<Rightarrow> exn + string" where
  "read_file open_read =
     (case open_read Utf8 of
        Inr text \<Rightarrow> Inr text
      | Inl (UnicodeDecodeError _) \<Rightarrow>
          (case open_read Latin1 of
             Inr text \<Rightarrow> Inr text
           | Inl e \<Rightarrow> Inr (''Error reading file: '' @ exn_str e))
      | Inl e \<Rightarrow> Inr (''Error reading file: '' @ exn_str e))"

section \<open>Terminal formatter\<close>

definition format_terminal_line :: "string \<Rightarrow> string" where
  "format_terminal_line line =
     (if startswith line ''# '' then BOLD @ YELLOW @ line @ RESET
      else if startswith line ''## '' then BOLD @ CYAN @ line @ RESET
      else if startswith line ''### '' then BOLD @ line @ RESET
      else if startswith line ''```'' then PURPLE @ line @ RESET
      else if startswith (strip line) ''$'' \<or> startswith (strip line) ''sudo''
        then GREEN @ line @ RESET
      else if startswith (strip line) ''- '' \<or> startswith (strip line) ''* ''
           \<or> startswith (strip line) ''+ ''
        then CYAN @ line @ RESET
      else if strip line \<noteq> [] \<and> isdigit (hd line) \<and> contains line ''. ''
        then CYAN @ line @ RESET
      else line)"

definition terminal_header :: "string \<Rightarrow> string list" where
  "terminal_header name =
     [BOLD @ BLUE @ replicate 60 (CHR ''='') @ RESET,
      BOLD @ GREEN @ name @ RESET,
      BOLD @ BLUE @ replicate 60 (CHR ''='') @ RESET,
      []]"

text \<open>The formatter reads only \<open>file_path.name\<close>, which is passed as \<open>name\<close>.\<close>

definition format_terminal :: "string \<Rightarrow> string \<Rightarrow> string" where
  "format_terminal content name =
     join [NL] (terminal_header name @ map format_terminal_line (split content NL))"

section \<open>HTML formatter\<close>

definition html_template :: "string \<Rightarrow> string \<Rightarrow> string" where
  "html_template name html_content =
     [NL] @ ''<!DOCTYPE html>'' @ [NL] @
     ''<html>'' @ [NL] @
     ''<head>'' @ [NL] @
     ''    <title>'' @ name @ ''</title>'' @ [NL] @
     ''    <style>'' @ [NL] @
     ''        body { font-family: Arial, sans-serif; margin: 40px; line-height: 1.6; }'' @ [NL] @
     ''        h1, h2, h3 { color: #333; }'' @ [NL] @
     ''        code { background: #f4f4f4; padding: 2px 4px; border-radius: 3px; }'' @ [NL] @
     ''        pre { background: #f4f4f4; padding: 10px; border-radius: 5px; overflow-x: auto; }'' @ [NL] @
     ''        blockquote { border-left: 4px solid #ddd; padding-left: 20px; margin-left: 0; }'' @ [NL] @
     ''    </style>'' @ [NL] @
     ''</head>'' @ [NL] @
     ''<body>'' @ [NL] @
     html_content @ [NL] @
     ''</body>'' @ [NL] @
     ''</html>'' @ [NL]"

text \<open>
  \<open>MARKDOWN_AVAILABLE\<close> and the conversion of the \<open>markdown\<close> package are parameters:
  the package is no part of the program.
\<close>

definition format_html :: "bool \<Rightarrow> (string \<Rightarrow> string) \<Rightarrow> string \<Rightarrow> string \<Rightarrow> string" where
  "format_html markdown_available markdown content name =
     (let html_content =
        (if markdown_available \<and> lower (suffix_of name) \<in> set [''.md'', ''.markdown'']
         then markdown content
         else
           (let content1 =
                  replace (replace (replace content ''&'' ''&amp;'') ''<'' ''&lt;'') ''>'' ''&gt;'';
                content2 = replace content1 [NL] (''<br>'' @ [NL])
            in ''<pre>'' @ content2 @ ''</pre>''))
      in html_template name html_content)"

section \<open>The environment of a run\<close>

text \<open>
  What a run reads from outside: two environment variables; the \<open>pathlib\<close> operations
  on paths (\<open>Path(s)\<close>, \<open>p / s\<close>, \<open>p.name\<close>, \<open>str(p)\<close>), the home and the current directory;
  the file system (which paths exist, the entry names of a directory in the order of
  enumeration, the outcome of reading a file with an encoding); the outcome of
  \<open>subprocess.run\<close> on a command and an input; and the \<open>markdown\<close> package. The type of
  paths is a parameter.
\<close>

datatype run_outcome = Completed | CalledProcessError | FileNotFoundError | RunRaises exn

record 'p env =
  DOTFILES_DIR :: "string option"
  PAGER :: "string option"
  make_path :: "string \<Rightarrow> 'p"
  joinpath :: "'p \<Rightarrow> string \<Rightarrow> 'p"
  path_name :: "'p \<Rightarrow> string"
  path_str :: "'p \<Rightarrow> string"
  home :: 'p
  cwd :: 'p
  path_exists :: "'p \<Rightarrow> bool"
  scandir :: "'p \<Rightarrow> string list"
  open_file :: "'p \<Rightarrow> encoding \<Rightarrow> exn + string"
  subprocess_run :: "string list \<Rightarrow> string \<Rightarrow> run_outcome"
  MARKDOWN_AVAILABLE :: bool
  markdown_markdown :: "string \<Rightarrow> string"

section \<open>Directory resolver\<close>

definition candidates :: "'p env \<Rightarrow> 'p list" where
  "candidates e =
     [joinpath e (home e) ''.dotfiles-public'', joinpath e (home e) ''.dotfiles'', cwd e]"

text \<open>
  A path is true as a condition, so \<open>any(candidate.glob('README*'))\<close> holds when the glob
  yields an entry.
\<close>

definition find_dotfiles_dir :: "'p env \<Rightarrow> 'p" where
  "find_dotfiles_dir e =
     (let fallback =
        (case find (\<lambda>candidate. path_exists e candidate
                                 \<and> glob (scandir e candidate) ''README'' \<noteq> [])
                   (candidates e) of
           Some candidate \<Rightarrow> candidate
         | None \<Rightarrow> cwd e)
      in case DOTFILES_DIR e of
           Some dotfiles_dir \<Rightarrow>
             if dotfiles_dir \<noteq> [] \<and> path_exists e (make_path e dotfiles_dir)
             then make_path e dotfiles_dir
             else fallback
         | None \<Rightarrow> fallback)"

section \<open>Alias extractor\<close>

text \<open>
  The loop over the lines keeps the current section and the output lines. The body of
  the \<open>try\<close> raises nothing, so its handler is never entered.
\<close>

definition alias_line :: "string option \<times> string list \<Rightarrow> string \<Rightarrow> string option \<times> string list" where
  "alias_line st raw =
     (let current_section = fst st; output = snd st; line = strip raw in
      if startswith line ''# '' \<and> \<not> startswith line ''##'' then
        (let section = strip (drop 2 line) in
         if Some section \<noteq> current_section
         then (Some section, output @ [BOLD @ YELLOW @ section @ RESET, []])
         else (current_section, output))
      else if startswith line ''alias '' then
        (let alias_def = drop 6 line in
         if contains alias_def ''='' then
           (let alias_name = fst (split_once alias_def (CHR ''=''));
                alias_cmd = strip_chars (snd (split_once alias_def (CHR ''=''))) [CHR 0x27, CHR 0x22]
            in (current_section,
                output @ [''  '' @ CYAN @ ljust (strip alias_name) 15 @ RESET @ '' '' @ alias_cmd]))
         else (current_section, output))
      else (current_section, output))"

definition aliases_report :: "string \<Rightarrow> string" where
  "aliases_report content =
     join [NL]
       (snd (foldl alias_line (None, [BOLD @ GREEN @ ''Available Aliases:'' @ RESET, []])
               (split content NL)))"

definition get_aliases :: "'p env \<Rightarrow> exn + string" where
  "get_aliases e =
     (let dotfiles_dir = find_dotfiles_dir e;
          aliases_file = joinpath e dotfiles_dir ''.bash_aliases''
      in if \<not> path_exists e aliases_file then Inr ''No .bash_aliases file found.''
         else case read_file (open_file e aliases_file) of
                Inl x \<Rightarrow> Inl x
              | Inr content \<Rightarrow> Inr (aliases_report content))"

section \<open>Output sink\<close>

text \<open>
  The effects of a run are the calls of \<open>print\<close> and of \<open>subprocess.run\<close>, in order. A
  run ends by returning from \<open>main\<close>, by \<open>sys.exit\<close> with a code, or with an exception
  that nothing catches.
\<close>

datatype event = Print string | Run "string list" string

datatype outcome = Returned | SysExit nat | Uncaught exn

definition pager_command :: "'p env \<Rightarrow> string list" where
  "pager_command e =
     (let pager = (case PAGER e of Some p \<Rightarrow> p | None \<Rightarrow> ''less'') in
      if pager = ''less'' then [pager, ''-R'', ''-F'', ''-X''] else [pager])"

definition display_with_pager :: "'p env \<Rightarrow> string \<Rightarrow> event list \<times> outcome" where
  "display_with_pager e content =
     (case subprocess_run e (pager_command e) content of
        Completed \<Rightarrow> ([Run (pager_command e) content], Returned)
      | CalledProcessError \<Rightarrow> ([Run (pager_command e) content, Print content], Returned)
      | FileNotFoundError \<Rightarrow> ([Run (pager_command e) content, Print content], Returned)
      | RunRaises x \<Rightarrow> ([Run (pager_command e) content], Uncaught x))"

section \<open>The main program\<close>

datatype format = Terminal | Html | Text

record args =
  arg_file :: "string option"
  arg_aliases :: bool
  arg_format :: format
  arg_dir :: "string option"
  arg_no_pager :: bool

text \<open>An option of the command line given with a value that is not empty.\<close>

definition given :: "string option \<Rightarrow> string option" where
  "given opt = (case opt of Some v \<Rightarrow> if v \<noteq> [] then Some v else None | None \<Rightarrow> None)"

text \<open>The directory of the run: \<open>--dir\<close> when given, else the resolved one.\<close>

definition run_dir :: "args \<Rightarrow> 'p env \<Rightarrow> 'p" where
  "run_dir a e =
     (case given (arg_dir a) of
        Some d \<Rightarrow> make_path e d
      | None \<Rightarrow> find_dotfiles_dir e)"

text \<open>
  The files to show, or the message and the exit when there are none. A path that
  \<open>find_doc_files\<close> returns is the directory joined with the entry name.
\<close>

definition files_to_show :: "args \<Rightarrow> 'p env \<Rightarrow> 'p \<Rightarrow> (event list \<times> outcome) + 'p list" where
  "files_to_show a e dotfiles_dir =
     (case given (arg_file a) of
        Some f \<Rightarrow>
          (let file_path = joinpath e dotfiles_dir f in
           if \<not> path_exists e file_path
           then Inl ([Print (RED @ ''Error: File not found: '' @ path_str e file_path @ RESET)],
                     SysExit 1)
           else Inr [file_path])
      | None \<Rightarrow>
          (let files = map (joinpath e dotfiles_dir) (find_doc_files (scandir e dotfiles_dir)) in
           if files = []
           then Inl ([Print (YELLOW @ ''No documentation files found in ''
                             @ path_str e dotfiles_dir @ RESET)], SysExit 1)
           else Inr files))"

definition format_one :: "args \<Rightarrow> 'p env \<Rightarrow> string \<Rightarrow> 'p \<Rightarrow> string" where
  "format_one a e content file_path =
     (case arg_format a of
        Html \<Rightarrow>
          format_html (MARKDOWN_AVAILABLE e) (markdown_markdown e) content (path_name e file_path)
      | Text \<Rightarrow> ''=== '' @ path_name e file_path @ '' ==='' @ [NL, NL] @ content
      | Terminal \<Rightarrow> format_terminal content (path_name e file_path))"

fun output_parts :: "args \<Rightarrow> 'p env \<Rightarrow> 'p list \<Rightarrow> exn + string list" where
  "output_parts a e [] = Inr []"
| "output_parts a e (file_path # rest) =
     (case read_file (open_file e file_path) of
        Inl x \<Rightarrow> Inl x
      | Inr content \<Rightarrow>
          (case output_parts a e rest of
             Inl x \<Rightarrow> Inl x
           | Inr others \<Rightarrow> Inr (format_one a e content file_path # others)))"

definition display_output :: "args \<Rightarrow> 'p env \<Rightarrow> string \<Rightarrow> event list \<times> outcome" where
  "display_output a e final_output =
     (if arg_format a = Html then ([Print final_output], Returned)
      else if arg_no_pager a \<or> arg_format a \<noteq> Terminal then ([Print final_output], Returned)
      else display_with_pager e final_output)"

definition main :: "args \<Rightarrow> 'p env \<Rightarrow> event list \<times> outcome" where
  "main a e =
     (let dotfiles_dir = run_dir a e in
      if \<not> path_exists e dotfiles_dir
      then ([Print (RED @ ''Error: Dotfiles directory not found: '' @ path_str e dotfiles_dir
                    @ RESET)], SysExit 1)
      else if arg_aliases a then
        (case get_aliases e of
           Inl x \<Rightarrow> ([], Uncaught x)
         | Inr aliases_content \<Rightarrow>
             if arg_no_pager a \<or> arg_format a \<noteq> Terminal
             then ([Print aliases_content], Returned)
             else display_with_pager e aliases_content)
      else
        (case files_to_show a e dotfiles_dir of
           Inl stop \<Rightarrow> stop
         | Inr files \<Rightarrow>
             (case output_parts a e files of
                Inl x \<Rightarrow> ([], Uncaught x)
              | Inr rendered \<Rightarrow> display_output a e (join [NL, NL] rendered))))"

section \<open>Notions of the specification\<close>

text \<open>
  The definitions of this section follow the words of the specification; the theorems
  compare them with the program.
\<close>

text \<open>The escaping that the specification describes: each character is looked at once.\<close>

definition html_escape_char :: "char \<Rightarrow> string" where
  "html_escape_char c =
     (if c = CHR ''&'' then ''&amp;''
      else if c = CHR ''<'' then ''&lt;''
      else if c = CHR ''>'' then ''&gt;''
      else [c])"

definition html_escape :: "string \<Rightarrow> string" where
  "html_escape s = concat (map html_escape_char s)"

text \<open>Rich-text delegation is used: the condition of \<open>format_html\<close>.\<close>

definition delegated :: "bool \<Rightarrow> string \<Rightarrow> bool" where
  "delegated markdown_available name =
     (markdown_available \<and> lower (suffix_of name) \<in> set [''.md'', ''.markdown''])"

text \<open>
  The classes of a line in the terminal formatter, the rule of each class (the condition
  the program tests for it) and its style. \<open>classify\<close> tests the rules in the order of
  the specification: headings, code fences, prompts, lists, default.
\<close>

datatype line_class =
  Heading1 | Heading2 | Heading3 | CodeFence | Prompt | Bullet | Numbered | Unclassified

fun rule_of :: "line_class \<Rightarrow> string \<Rightarrow> bool" where
  "rule_of Heading1 line = startswith line ''# ''"
| "rule_of Heading2 line = startswith line ''## ''"
| "rule_of Heading3 line = startswith line ''### ''"
| "rule_of CodeFence line = startswith line ''```''"
| "rule_of Prompt line = (startswith (strip line) ''$'' \<or> startswith (strip line) ''sudo'')"
| "rule_of Bullet line =
     (startswith (strip line) ''- '' \<or> startswith (strip line) ''* ''
      \<or> startswith (strip line) ''+ '')"
| "rule_of Numbered line = (strip line \<noteq> [] \<and> isdigit (hd line) \<and> contains line ''. '')"
| "rule_of Unclassified line = False"

definition classify :: "string \<Rightarrow> line_class" where
  "classify line =
     (if rule_of Heading1 line then Heading1
      else if rule_of Heading2 line then Heading2
      else if rule_of Heading3 line then Heading3
      else if rule_of CodeFence line then CodeFence
      else if rule_of Prompt line then Prompt
      else if rule_of Bullet line then Bullet
      else if rule_of Numbered line then Numbered
      else Unclassified)"

fun style :: "line_class \<Rightarrow> string" where
  "style Heading1 = BOLD @ YELLOW"
| "style Heading2 = BOLD @ CYAN"
| "style Heading3 = BOLD"
| "style CodeFence = PURPLE"
| "style Prompt = GREEN"
| "style Bullet = CYAN"
| "style Numbered = CYAN"
| "style Unclassified = []"

text \<open>
  What the alias extractor reads from the lines: a section whenever the label of a
  section line differs from the current one, and an alias for every alias line. The
  labels, names and commands are those of the lines after the surrounding white space
  is removed.
\<close>

datatype alias_item = Section string | Alias string string

definition quote_chars :: string where
  "quote_chars = [CHR 0x27, CHR 0x22]"

definition section_label :: "string \<Rightarrow> string" where
  "section_label line = strip (drop 2 line)"

definition alias_name :: "string \<Rightarrow> string" where
  "alias_name line = strip (takeWhile (\<lambda>c. c \<noteq> CHR ''='') (drop 6 line))"

definition alias_value :: "string \<Rightarrow> string" where
  "alias_value line = tl (dropWhile (\<lambda>c. c \<noteq> CHR ''='') (drop 6 line))"

definition alias_command :: "string \<Rightarrow> string" where
  "alias_command line = strip_chars (alias_value line) quote_chars"

definition is_section_line :: "string \<Rightarrow> bool" where
  "is_section_line line = startswith line ''# ''"

definition is_alias_line :: "string \<Rightarrow> bool" where
  "is_alias_line line = (startswith line ''alias '' \<and> CHR ''='' \<in> set (drop 6 line))"

fun alias_items :: "string option \<Rightarrow> string list \<Rightarrow> alias_item list" where
  "alias_items current [] = []"
| "alias_items current (raw # rest) =
     (let line = strip raw in
      if is_section_line line then
        (if Some (section_label line) \<noteq> current
         then Section (section_label line) # alias_items (Some (section_label line)) rest
         else alias_items current rest)
      else if is_alias_line line
        then Alias (alias_name line) (alias_command line) # alias_items current rest
      else alias_items current rest)"

fun render_item :: "alias_item \<Rightarrow> string list" where
  "render_item (Section label) = [BOLD @ YELLOW @ label @ RESET, []]"
| "render_item (Alias name command) =
     [''  '' @ CYAN @ ljust name 15 @ RESET @ '' '' @ command]"

fun sections_of :: "alias_item list \<Rightarrow> string list" where
  "sections_of [] = []"
| "sections_of (Section label # items) = label # sections_of items"
| "sections_of (Alias name command # items) = sections_of items"

fun aliases_of :: "alias_item list \<Rightarrow> (string \<times> string) list" where
  "aliases_of [] = []"
| "aliases_of (Section label # items) = aliases_of items"
| "aliases_of (Alias name command # items) = (name, command) # aliases_of items"

text \<open>Removing a single layer of surrounding quotes, in the words of the specification.\<close>

definition strip_one_quote_layer :: "string \<Rightarrow> string" where
  "strip_one_quote_layer v =
     (if 2 \<le> length v \<and> hd v \<in> set quote_chars \<and> last v = hd v then butlast (tl v) else v)"




section \<open>Auxiliary notions of the proofs\<close>

text \<open>A number for each group of rules, read off the first character.\<close>

definition lead_group :: "char \<Rightarrow> nat" where
  "lead_group c =
     (if c = CHR ''#'' then 1 else if c = CHR ''`'' then 2
      else if c = CHR ''$'' \<or> c = CHR ''s'' then 3
      else if c = CHR ''-'' \<or> c = CHR ''*'' \<or> c = CHR ''+'' then 4
      else if isdigit c then 5 else 0)"

fun group_of :: "line_class \<Rightarrow> nat" where
  "group_of Heading1 = 1"
| "group_of Heading2 = 1"
| "group_of Heading3 = 1"
| "group_of CodeFence = 2"
| "group_of Prompt = 3"
| "group_of Bullet = 4"
| "group_of Numbered = 5"
| "group_of Unclassified = 0"

text \<open>The level of a heading line, read off its first three characters.\<close>

definition heading_level :: "string \<Rightarrow> line_class" where
  "heading_level line =
     (if take 2 line = ''# '' then Heading1
      else if take 3 line = ''## '' then Heading2 else Heading3)"

text \<open>The styles that the terminal formatter puts before a classified line.\<close>

definition styles :: "string list" where
  "styles = [BOLD @ YELLOW, BOLD @ CYAN, BOLD, PURPLE, GREEN, CYAN]"

text \<open>
  An environment for examples: paths are strings joined with slashes; the directories
  \<open>/d\<close> and \<open>/work\<close> exist, \<open>/d\<close> holds the file \<open>.bash_aliases\<close> with one alias, \<open>/work\<close> is the
  current directory and is empty; no variable is set and the pager succeeds.
\<close>

definition example_env :: "string env" where
  "example_env =
     \<lparr>DOTFILES_DIR = None, PAGER = None,
      make_path = (\<lambda>s. s),
      joinpath = (\<lambda>p s. p @ ''/'' @ s),
      path_name = (\<lambda>p. last (split p (CHR ''/''))),
      path_str = (\<lambda>p. p),
      home = ''/home/u'', cwd = ''/work'',
      path_exists = (\<lambda>p. p = ''/d'' \<or> p = ''/d/.bash_aliases'' \<or> p = ''/work''),
      scandir = (\<lambda>p. if p = ''/d'' then [''.bash_aliases''] else []),
      open_file = (\<lambda>p enc. if p = ''/d/.bash_aliases''
                            then Inr (''alias ll='' @ [CHR 0x27] @ ''ls -la'' @ [CHR 0x27])
                            else Inl (OtherException ''No such file or directory'')),
      subprocess_run = (\<lambda>cmd input. Completed),
      MARKDOWN_AVAILABLE = False,
      markdown_markdown = (\<lambda>s. s)\<rparr>"

definition example_args :: args where
  "example_args =
     \<lparr>arg_file = Some ''missing.md'', arg_aliases = True, arg_format = Terminal,
      arg_dir = Some ''/d'', arg_no_pager = True\<rparr>"

section \<open>Properties of the file locator\<close>

lemma mset_find_doc_files: "mset (find_doc_files d) = mset (collect_files d)"
  by (simp add: find_doc_files_def)

lemma sorted_find_doc_files: "sorted (map doc_sort_key (find_doc_files d))"
  by (simp add: find_doc_files_def)

lemma snd_doc_sort_key: "snd (doc_sort_key f) = f"
  by (simp add: doc_sort_key_def Let_def)

lemma inj_doc_sort_key: "inj_on doc_sort_key A"
  by (rule inj_onI) (metis snd_doc_sort_key)

lemma length_priority_order: "length priority_order = 7"
  by (simp add: priority_order_def)

lemma list_index_nth: "x \<in> set xs \<Longrightarrow> list_index xs x < length xs \<and> xs ! list_index xs x = x"
  unfolding list_index_def by (induction xs) auto

lemma fst_doc_sort_key_in:
  "upper (stem f) \<in> set priority_order \<Longrightarrow>
     fst (doc_sort_key f) < 7 \<and> priority_order ! fst (doc_sort_key f) = upper (stem f)"
  using list_index_nth [of "upper (stem f)" priority_order]
  by (simp add: doc_sort_key_def Let_def length_priority_order)

lemma fst_doc_sort_key_out:
  "upper (stem f) \<notin> set priority_order \<Longrightarrow> fst (doc_sort_key f) = 7"
  by (simp add: doc_sort_key_def Let_def length_priority_order)

lemma find_doc_files_order:
  assumes "i < j" "j < length (find_doc_files d)"
  shows "fst (doc_sort_key (find_doc_files d ! i)) < fst (doc_sort_key (find_doc_files d ! j))
       \<or> (fst (doc_sort_key (find_doc_files d ! i)) = fst (doc_sort_key (find_doc_files d ! j))
          \<and> find_doc_files d ! i \<le> find_doc_files d ! j)"
proof -
  let ?r = "find_doc_files d"
  have "sorted (map doc_sort_key ?r)" by (rule sorted_find_doc_files)
  then have "map doc_sort_key ?r ! i \<le> map doc_sort_key ?r ! j"
    using assms by (intro sorted_nth_mono) simp_all
  then have le: "doc_sort_key (?r ! i) \<le> doc_sort_key (?r ! j)"
    using assms by simp
  obtain a b where ki: "doc_sort_key (?r ! i) = (a, b)" by (cases "doc_sort_key (?r ! i)")
  obtain a' b' where kj: "doc_sort_key (?r ! j) = (a', b')" by (cases "doc_sort_key (?r ! j)")
  have b: "b = ?r ! i" using snd_doc_sort_key [of "?r ! i"] ki by simp
  have b': "b' = ?r ! j" using snd_doc_sort_key [of "?r ! j"] kj by simp
  from le have "a < a' \<or> (a = a' \<and> b \<le> b')"
    unfolding ki kj by (auto simp: less_eq_prod_def)
  then show ?thesis
    unfolding ki kj b b' by simp
qed

lemma pattern_take2:
  assumes "p \<in> set doc_patterns" "startswith f p"
  shows "take 2 f = take 2 p"
proof -
  have "2 \<le> length p"
    using assms(1) unfolding doc_patterns_def by auto
  moreover obtain r where "f = p @ r"
    using assms(2) unfolding startswith_def prefix_def by blast
  ultimately show ?thesis by simp
qed

lemma take2_inj: "inj_on (take 2) (set doc_patterns)"
  by (simp add: doc_patterns_def)

lemma pattern_unique:
  assumes "p \<in> set doc_patterns" "q \<in> set doc_patterns" "startswith f p" "startswith f q"
  shows "p = q"
proof -
  have "take 2 p = take 2 q"
    using pattern_take2 [OF assms(1,3)] pattern_take2 [OF assms(2,4)] by simp
  then show ?thesis
    using take2_inj assms(1,2) by (simp add: inj_on_def)
qed

lemma distinct_concat_filter:
  assumes "distinct d" "distinct ps"
    and "\<And>p q x. p \<in> set ps \<Longrightarrow> q \<in> set ps \<Longrightarrow> P p x \<Longrightarrow> P q x \<Longrightarrow> p = q"
  shows "distinct (concat (map (\<lambda>p. filter (P p) d) ps))"
  using assms(2,3)
proof (induction ps)
  case Nil
  show ?case by simp
next
  case (Cons a ps)
  have ih: "distinct (concat (map (\<lambda>p. filter (P p) d) ps))"
    using Cons by simp
  have disj: "set (filter (P a) d) \<inter> set (concat (map (\<lambda>p. filter (P p) d) ps)) = {}"
  proof (rule ccontr)
    assume "\<not> ?thesis"
    then obtain x q where "P a x" "q \<in> set ps" "P q x" by auto
    then have "a = q" using Cons.prems(2) [of a q x] by simp
    then show False using Cons.prems(1) \<open>q \<in> set ps\<close> by simp
  qed
  show ?case using ih disj assms(1) by simp
qed

lemma distinct_collect_files:
  assumes "distinct d"
  shows "distinct (collect_files d)"
proof -
  have "distinct doc_patterns" by (simp add: doc_patterns_def)
  with assms have "distinct (concat (map (\<lambda>p. filter (\<lambda>e. startswith e p) d) doc_patterns))"
    by (rule distinct_concat_filter) (rule pattern_unique)
  then show ?thesis
    unfolding collect_files_def glob_def [abs_def] by simp
qed

lemma set_collect_files:
  "set (collect_files d) = {e \<in> set d. \<exists>p \<in> set doc_patterns. startswith e p}"
  unfolding collect_files_def glob_def by auto

lemma three_docs_matched:
  "{e \<in> {''README.md'', ''INSTALL.txt'', ''CHEATSHEET.md''}. \<exists>p \<in> set doc_patterns. startswith e p}
     = {''README.md'', ''INSTALL.txt'', ''CHEATSHEET.md''}"
proof -
  have "startswith ''README.md'' ''README''" "startswith ''INSTALL.txt'' ''INSTALL''"
    "startswith ''CHEATSHEET.md'' ''CHEATSHEET''"
    by (simp_all add: startswith_def)
  moreover have "''README'' \<in> set doc_patterns" "''INSTALL'' \<in> set doc_patterns"
    "''CHEATSHEET'' \<in> set doc_patterns"
    by (simp_all add: doc_patterns_def)
  ultimately show ?thesis by blast
qed

lemma three_docs_keys:
  "map doc_sort_key [''README.md'', ''INSTALL.txt'', ''CHEATSHEET.md'']
     = [(0, ''README.md''), (1, ''INSTALL.txt''), (6, ''CHEATSHEET.md'')]"
  by code_simp

lemma three_docs_order:
  assumes "distinct d" "set d = {''README.md'', ''INSTALL.txt'', ''CHEATSHEET.md''}"
  shows "find_doc_files d = [''README.md'', ''INSTALL.txt'', ''CHEATSHEET.md'']"
proof (rule map_sorted_distinct_set_unique [where f = doc_sort_key])
  let ?t = "[''README.md'', ''INSTALL.txt'', ''CHEATSHEET.md'']"
  show "inj_on doc_sort_key (set (find_doc_files d) \<union> set ?t)"
    by (rule inj_doc_sort_key)
  show "sorted (map doc_sort_key (find_doc_files d))"
    by (rule sorted_find_doc_files)
  have "distinct (find_doc_files d)"
    using distinct_collect_files [OF assms(1)] by (simp add: find_doc_files_def)
  then show "distinct (map doc_sort_key (find_doc_files d))"
    by (simp add: distinct_map inj_doc_sort_key)
  show "sorted (map doc_sort_key ?t)"
    unfolding three_docs_keys by (simp add: less_eq_prod_def)
  show "distinct (map doc_sort_key ?t)"
    unfolding three_docs_keys by simp
  have "set (find_doc_files d) = set (collect_files d)"
    by (simp add: find_doc_files_def)
  then show "set (find_doc_files d) = set ?t"
    using three_docs_matched by (simp add: set_collect_files assms(2))
qed

lemma non_priority_order:
  assumes "i < j" "j < length (find_doc_files d)"
    and "upper (stem (find_doc_files d ! i)) \<notin> set priority_order"
    and "upper (stem (find_doc_files d ! j)) \<notin> set priority_order"
  shows "find_doc_files d ! i \<le> find_doc_files d ! j"
  using find_doc_files_order [OF assms(1,2)]
    fst_doc_sort_key_out [OF assms(3)] fst_doc_sort_key_out [OF assms(4)]
  by simp



lemma count_concat_filter:
  assumes "distinct ps"
    and "\<And>p q. p \<in> set ps \<Longrightarrow> q \<in> set ps \<Longrightarrow> P p f \<Longrightarrow> P q f \<Longrightarrow> p = q"
  shows "count (mset (concat (map (\<lambda>p. filter (P p) d) ps))) f
       = (if \<exists>p \<in> set ps. P p f then count (mset d) f else 0)"
  using assms
proof (induction ps)
  case Nil
  show ?case by simp
next
  case (Cons a ps)
  have ih: "count (mset (concat (map (\<lambda>p. filter (P p) d) ps))) f
          = (if \<exists>p \<in> set ps. P p f then count (mset d) f else 0)"
    using Cons by simp
  have excl: "P a f \<Longrightarrow> \<not> (\<exists>p \<in> set ps. P p f)"
  proof
    assume "P a f" "\<exists>p \<in> set ps. P p f"
    then obtain q where q: "q \<in> set ps" "P q f" by blast
    then have "a = q" using Cons.prems(2) [of a q] \<open>P a f\<close> by simp
    then show False using Cons.prems(1) q(1) by simp
  qed
  show ?case
  proof (cases "P a f")
    case True
    then show ?thesis using ih excl by simp
  next
    case False
    then show ?thesis using ih by simp
  qed
qed

lemma count_find_doc_files:
  "count (mset (find_doc_files d)) f
     = (if \<exists>p \<in> set doc_patterns. startswith f p then count (mset d) f else 0)"
proof -
  have "distinct doc_patterns" by (simp add: doc_patterns_def)
  then have "count (mset (concat (map (\<lambda>p. filter (\<lambda>e. startswith e p) d) doc_patterns))) f
     = (if \<exists>p \<in> set doc_patterns. startswith f p then count (mset d) f else 0)"
    by (rule count_concat_filter) (rule pattern_unique)
  then show ?thesis
    unfolding find_doc_files_def collect_files_def glob_def [abs_def] by simp
qed

section \<open>Claims about the file locator\<close>

text \<open>
  C1. \<open>find_doc_files\<close> returns the entries matched by the eight patterns (all of them,
  with their multiplicities), sorted first by the position of the upper-cased stem in
  the seven-element priority list, where a stem outside the list gets the index 7, and
  then by the file name. A directory that holds exactly \<open>README.md\<close>, \<open>INSTALL.txt\<close> and
  \<open>CHEATSHEET.md\<close> is listed in this order, whatever the enumeration order, and two
  returned files whose stems are outside the priority list stand in the order of their
  names.
\<close>

theorem find_doc_files_sorted_by_priority:
  "mset (find_doc_files d) = mset (collect_files d)
   \<and> set (collect_files d) = {e \<in> set d. \<exists>p \<in> set doc_patterns. startswith e p}
   \<and> length doc_patterns = 8 \<and> length priority_order = 7
   \<and> (\<forall>f. snd (doc_sort_key f) = f
         \<and> (upper (stem f) \<in> set priority_order \<longrightarrow>
              fst (doc_sort_key f) < 7 \<and> priority_order ! fst (doc_sort_key f) = upper (stem f))
         \<and> (upper (stem f) \<notin> set priority_order \<longrightarrow> fst (doc_sort_key f) = 7))
   \<and> sorted (map doc_sort_key (find_doc_files d))
   \<and> (\<forall>i j. i < j \<and> j < length (find_doc_files d) \<longrightarrow>
         fst (doc_sort_key (find_doc_files d ! i)) < fst (doc_sort_key (find_doc_files d ! j))
         \<or> (fst (doc_sort_key (find_doc_files d ! i)) = fst (doc_sort_key (find_doc_files d ! j))
            \<and> find_doc_files d ! i \<le> find_doc_files d ! j))
   \<and> (distinct d \<and> set d = {''README.md'', ''INSTALL.txt'', ''CHEATSHEET.md''} \<longrightarrow>
         find_doc_files d = [''README.md'', ''INSTALL.txt'', ''CHEATSHEET.md''])
   \<and> (\<forall>i j. i < j \<and> j < length (find_doc_files d)
         \<and> upper (stem (find_doc_files d ! i)) \<notin> set priority_order
         \<and> upper (stem (find_doc_files d ! j)) \<notin> set priority_order \<longrightarrow>
         find_doc_files d ! i \<le> find_doc_files d ! j)"
proof -
  have "length doc_patterns = 8" by (simp add: doc_patterns_def)
  moreover have "\<forall>f. snd (doc_sort_key f) = f
         \<and> (upper (stem f) \<in> set priority_order \<longrightarrow>
              fst (doc_sort_key f) < 7 \<and> priority_order ! fst (doc_sort_key f) = upper (stem f))
         \<and> (upper (stem f) \<notin> set priority_order \<longrightarrow> fst (doc_sort_key f) = 7)"
    using snd_doc_sort_key fst_doc_sort_key_in fst_doc_sort_key_out by blast
  ultimately show ?thesis
    using mset_find_doc_files [of d] set_collect_files [of d] length_priority_order
      sorted_find_doc_files [of d] find_doc_files_order [of _ _ d] three_docs_order [of d]
      non_priority_order [of _ _ d]
    by blast
qed

theorem find_doc_files_sorted_by_priority_witness:
  "find_doc_files [''CHEATSHEET.md'', ''INSTALL.txt'', ''README.md'']
     = [''README.md'', ''INSTALL.txt'', ''CHEATSHEET.md'']
   \<and> find_doc_files [''README_b.md'', ''GETTING_STARTED.md'', ''README.md'', ''README_a.md'']
     = [''README.md'', ''GETTING_STARTED.md'', ''README_a.md'', ''README_b.md'']
   \<and> find_doc_files [''README_b.md'', ''GETTING_STARTED.md'', ''README.md'', ''README_a.md''] ! 2
     \<le> find_doc_files [''README_b.md'', ''GETTING_STARTED.md'', ''README.md'', ''README_a.md''] ! 3"
proof -
  let ?d = "[''CHEATSHEET.md'', ''INSTALL.txt'', ''README.md'']"
  let ?e = "[''README_b.md'', ''GETTING_STARTED.md'', ''README.md'', ''README_a.md'']"
  have "distinct ?d \<and> set ?d = {''README.md'', ''INSTALL.txt'', ''CHEATSHEET.md''}"
    by auto
  then have first: "find_doc_files ?d = [''README.md'', ''INSTALL.txt'', ''CHEATSHEET.md'']"
    using find_doc_files_sorted_by_priority [of ?d] by blast
  have e: "find_doc_files ?e = [''README.md'', ''GETTING_STARTED.md'', ''README_a.md'', ''README_b.md'']"
    by code_simp
  have "upper (stem ''README_a.md'') \<notin> set priority_order"
    "upper (stem ''README_b.md'') \<notin> set priority_order"
    by code_simp+
  then have "(2::nat) < 3 \<and> 3 < length (find_doc_files ?e)
         \<and> upper (stem (find_doc_files ?e ! 2)) \<notin> set priority_order
         \<and> upper (stem (find_doc_files ?e ! 3)) \<notin> set priority_order"
    unfolding e by simp
  then have "find_doc_files ?e ! 2 \<le> find_doc_files ?e ! 3"
    using find_doc_files_sorted_by_priority [of ?e] by blast
  with first e show ?thesis by simp
qed

text \<open>
  C2, as stated: some directory holds a file that matches more than one of the eight
  patterns and is therefore returned more than once. No such directory exists: no name
  starts with two different patterns, and no file is returned twice from a directory,
  whose entry names are distinct.
\<close>

theorem find_doc_files_duplicate_counterexample:
  "\<not> (\<exists>f p q. p \<in> set doc_patterns \<and> q \<in> set doc_patterns \<and> p \<noteq> q
          \<and> startswith f p \<and> startswith f q)
   \<and> \<not> (\<exists>d f. distinct d \<and> 1 < count (mset (find_doc_files d)) f)"
proof -
  have "\<not> (\<exists>d f. distinct d \<and> 1 < count (mset (find_doc_files d)) f)"
  proof
    assume "\<exists>d f. distinct d \<and> 1 < count (mset (find_doc_files d)) f"
    then obtain d f where d: "distinct d" and c: "1 < count (mset (find_doc_files d)) f"
      by blast
    have "count (mset d) f \<le> 1"
      using d by (simp add: distinct_count_atmost_1)
    then have "count (mset (find_doc_files d)) f \<le> 1"
      by (simp add: count_find_doc_files)
    with c show False by simp
  qed
  then show ?thesis
    using pattern_unique by blast
qed

text \<open>
  C2, amended: a name matches at most one of the eight patterns. \<open>find_doc_files\<close> removes
  nothing and adds nothing: a name that matches a pattern is returned as often as the
  directory enumerates it, which is once, and every other name is not returned; the
  result holds no file twice.
\<close>

theorem find_doc_files_no_duplicates:
  "(p \<in> set doc_patterns \<and> q \<in> set doc_patterns \<and> startswith f p \<and> startswith f q \<longrightarrow> p = q)
   \<and> count (mset (find_doc_files d)) f
       = (if \<exists>p \<in> set doc_patterns. startswith f p then count (mset d) f else 0)
   \<and> (distinct d \<longrightarrow> distinct (find_doc_files d))"
proof -
  have "distinct d \<longrightarrow> distinct (find_doc_files d)"
    using distinct_collect_files [of d] by (simp add: find_doc_files_def)
  then show ?thesis
    using pattern_unique [of p q f] count_find_doc_files [of d f] by blast
qed

theorem find_doc_files_no_duplicates_witness:
  "count (mset (find_doc_files [''SETUP.md'', ''notes.txt'', ''README.md''])) ''SETUP.md'' = 1
   \<and> count (mset (find_doc_files [''SETUP.md'', ''notes.txt'', ''README.md''])) ''notes.txt'' = 0
   \<and> distinct (find_doc_files [''SETUP.md'', ''notes.txt'', ''README.md''])"
proof -
  let ?d = "[''SETUP.md'', ''notes.txt'', ''README.md'']"
  have m: "\<exists>p \<in> set doc_patterns. startswith ''SETUP.md'' p"
    by (simp add: doc_patterns_def startswith_def)
  have n: "\<not> (\<exists>p \<in> set doc_patterns. startswith ''notes.txt'' p)"
    by (simp add: doc_patterns_def startswith_def)
  have d: "distinct ?d" by simp
  show ?thesis
    using find_doc_files_no_duplicates [of _ _ "''SETUP.md''" ?d]
      find_doc_files_no_duplicates [of _ _ "''notes.txt''" ?d] m n d
    by simp
qed

section \<open>Claims about the content reader\<close>

text \<open>
  C3. \<open>read_file\<close> always returns a string and never raises: the text decoded as UTF-8
  when the first attempt succeeds; the text decoded as Latin-1 when the first attempt
  fails with a decoding error and the second succeeds; and the string
  \<open>Error reading file: ...\<close> with the text of the exception on every other failure.
\<close>

theorem read_file_never_raises:
  "(\<exists>text. read_file open_read = Inr text)
   \<and> (open_read Utf8 = Inr t \<longrightarrow> read_file open_read = Inr t)
   \<and> (open_read Utf8 = Inl (UnicodeDecodeError m) \<and> open_read Latin1 = Inr t \<longrightarrow>
        read_file open_read = Inr t)
   \<and> (open_read Utf8 = Inl (UnicodeDecodeError m) \<and> open_read Latin1 = Inl e \<longrightarrow>
        read_file open_read = Inr (''Error reading file: '' @ exn_str e))
   \<and> (open_read Utf8 = Inl (OtherException m) \<longrightarrow>
        read_file open_read = Inr (''Error reading file: '' @ m))"
  unfolding read_file_def
  by (auto split: sum.splits exn.splits)

theorem read_file_never_raises_witness:
  "read_file (\<lambda>enc. case enc of Utf8 \<Rightarrow> Inr ''text'' | Latin1 \<Rightarrow> Inr ''other'') = Inr ''text''
   \<and> read_file (\<lambda>enc. case enc of Utf8 \<Rightarrow> Inl (UnicodeDecodeError ''bad byte'')
                              | Latin1 \<Rightarrow> Inr ''caf'') = Inr ''caf''
   \<and> read_file (\<lambda>enc. case enc of Utf8 \<Rightarrow> Inl (UnicodeDecodeError ''bad byte'')
                              | Latin1 \<Rightarrow> Inl (OtherException ''gone''))
       = Inr ''Error reading file: gone''
   \<and> read_file (\<lambda>enc. Inl (OtherException ''Permission denied''))
       = Inr ''Error reading file: Permission denied''"
proof -
  let ?a = "\<lambda>enc. case enc of Utf8 \<Rightarrow> Inr ''text'' | Latin1 \<Rightarrow> Inr ''other''"
  let ?b = "\<lambda>enc. case enc of Utf8 \<Rightarrow> Inl (UnicodeDecodeError ''bad byte'') | Latin1 \<Rightarrow> Inr ''caf''"
  let ?c = "\<lambda>enc. case enc of Utf8 \<Rightarrow> Inl (UnicodeDecodeError ''bad byte'')
                          | Latin1 \<Rightarrow> Inl (OtherException ''gone'')"
  let ?d = "\<lambda>enc :: encoding. Inl (OtherException ''Permission denied'') :: exn + string"
  have "read_file ?a = Inr ''text''"
    using read_file_never_raises [where open_read = ?a and t = "''text''"] by simp
  moreover have "read_file ?b = Inr ''caf''"
    using read_file_never_raises [where open_read = ?b and t = "''caf''" and m = "''bad byte''"] by simp
  moreover have "read_file ?c = Inr ''Error reading file: gone''"
    using read_file_never_raises [where open_read = ?c and m = "''bad byte''" and e = "OtherException ''gone''"] by simp
  moreover have "read_file ?d = Inr ''Error reading file: Permission denied''"
    using read_file_never_raises [where open_read = ?d and m = "''Permission denied''"] by simp
  ultimately show ?thesis by blast
qed

section \<open>Properties of the string operations\<close>

lemma replace_char:
  "replace s [c] new = concat (map (\<lambda>x. if x = c then new else [x]) s)"
proof (induction s)
  case Nil
  show ?case by (simp add: replace.simps [of "[]"])
next
  case (Cons x xs)
  have "replace (x # xs) [c] new
      = (if x = c then new @ replace xs [c] new else x # replace xs [c] new)"
    by (subst replace.simps) simp
  then show ?case
    by (simp add: Cons.IH)
qed

section \<open>Claims about the HTML formatter\<close>

lemma replace_three:
  "replace (replace (replace s ''&'' ''&amp;'') ''<'' ''&lt;'') ''>'' ''&gt;'' = html_escape s"
  unfolding html_escape_def replace_char
  by (induction s) (simp_all add: html_escape_char_def)

lemma br_html_escape:
  "replace (html_escape s) [NL] new
     = concat (map (\<lambda>c. if c = NL then new else html_escape_char c) s)"
  unfolding html_escape_def replace_char
  by (induction s) (simp_all add: html_escape_char_def NL_def)

lemma format_html_cases:
  "format_html markdown_available markdown content name
     = (if delegated markdown_available name then html_template name (markdown content)
        else html_template name
           (''<pre>''
            @ concat (map (\<lambda>c. if c = NL then ''<br>'' @ [NL] else html_escape_char c) content)
            @ ''</pre>''))"
  unfolding format_html_def delegated_def Let_def replace_three br_html_escape
  by auto

lemma format_html_escaped:
  assumes "\<not> delegated markdown_available name"
  shows "format_html markdown_available markdown content name
       = html_template name
           (''<pre>''
            @ concat (map (\<lambda>c. if c = NL then ''<br>'' @ [NL] else html_escape_char c) content)
            @ ''</pre>'')"
  using assms by (simp add: format_html_cases)

lemma format_html_delegated:
  assumes "delegated markdown_available name"
  shows "format_html markdown_available markdown content name
       = html_template name (markdown content)"
  using assms by (simp add: format_html_cases)

text \<open>
  C4, as stated: without delegation the content, with \<open>&\<close>, \<open><\<close> and \<open>>\<close> escaped once
  each, is wrapped in a preformatted block. This fails for a content that holds a line
  break: the program also puts \<open><br>\<close> before each line break.
\<close>

theorem format_html_escape_only_counterexample:
  "format_html False (\<lambda>s. s) [CHR ''a'', NL, CHR ''b''] ''notes.txt''
     \<noteq> html_template ''notes.txt''
         (''<pre>'' @ html_escape [CHR ''a'', NL, CHR ''b''] @ ''</pre>'')
   \<and> format_html False (\<lambda>s. s) [CHR ''a'', NL, CHR ''b''] ''notes.txt''
     = html_template ''notes.txt'' (''<pre>a<br>'' @ [NL] @ ''b</pre>'')"
  by (simp add: format_html_escaped delegated_def html_template_def html_escape_def
      html_escape_char_def NL_def)

text \<open>
  C4, amended: without delegation \<open>format_html\<close> replaces every \<open>&\<close> by \<open>&amp;\<close>, every
  \<open><\<close> by \<open>&lt;\<close> and every \<open>>\<close> by \<open>&gt;\<close>, each character of the content once, then
  replaces every line break by \<open><br>\<close> and a line break, and wraps the outcome in a
  preformatted block; with delegation the block is the output of the converter. In both
  cases the block stands in the fixed document template whose title is the name of the
  file.
\<close>

theorem format_html_escapes_once:
  "(\<not> delegated markdown_available name \<longrightarrow>
      replace (replace (replace content ''&'' ''&amp;'') ''<'' ''&lt;'') ''>'' ''&gt;''
        = html_escape content
      \<and> format_html markdown_available markdown content name
        = html_template name
            (''<pre>'' @ replace (html_escape content) [NL] (''<br>'' @ [NL]) @ ''</pre>'')
      \<and> replace (html_escape content) [NL] (''<br>'' @ [NL])
        = concat (map (\<lambda>c. if c = NL then ''<br>'' @ [NL] else html_escape_char c) content))
   \<and> (delegated markdown_available name \<longrightarrow>
      format_html markdown_available markdown content name
        = html_template name (markdown content))
   \<and> (\<exists>html_content. format_html markdown_available markdown content name
        = html_template name html_content)"
proof (intro conjI impI)
  show "replace (replace (replace content ''&'' ''&amp;'') ''<'' ''&lt;'') ''>'' ''&gt;''
        = html_escape content"
    by (rule replace_three)
  show "replace (html_escape content) [NL] (''<br>'' @ [NL])
        = concat (map (\<lambda>c. if c = NL then ''<br>'' @ [NL] else html_escape_char c) content)"
    by (rule br_html_escape)
  show "format_html markdown_available markdown content name
        = html_template name
            (''<pre>'' @ replace (html_escape content) [NL] (''<br>'' @ [NL]) @ ''</pre>'')"
    if "\<not> delegated markdown_available name"
    using format_html_escaped [OF that] by (simp only: br_html_escape)
  show "format_html markdown_available markdown content name
        = html_template name (markdown content)"
    if "delegated markdown_available name"
    using that by (rule format_html_delegated)
  show "\<exists>html_content. format_html markdown_available markdown content name
        = html_template name html_content"
    unfolding format_html_cases by (cases "delegated markdown_available name") auto
qed

theorem format_html_escapes_once_witness:
  "format_html False (\<lambda>s. s) ''a&b<c>'' ''README.md''
     = html_template ''README.md'' ''<pre>a&amp;b&lt;c&gt;</pre>''
   \<and> format_html True (\<lambda>s. ''<p>'' @ s @ ''</p>'') ''hi'' ''README.md''
     = html_template ''README.md'' ''<p>hi</p>''"
proof -
  have n: "\<not> delegated False ''README.md''"
    by (simp add: delegated_def)
  have e: "replace (html_escape ''a&b<c>'') [NL] (''<br>'' @ [NL]) = ''a&amp;b&lt;c&gt;''"
    using format_html_escapes_once [of False "''README.md''" "''a&b<c>''" "\<lambda>s. s"] n
    by (simp add: html_escape_char_def NL_def)
  have d: "delegated True ''README.md''"
    by (simp add: delegated_def suffix_of_def lower_def lower_char_def)
  show ?thesis
    using format_html_escapes_once [of False "''README.md''" "''a&b<c>''" "\<lambda>s. s"] n e
      format_html_escapes_once [of True "''README.md''" "''hi''" "\<lambda>s. ''<p>'' @ s @ ''</p>''"] d
    by simp
qed

section \<open>Claims about the terminal formatter\<close>

lemma startswith_Cons: "startswith s (c # p) \<Longrightarrow> s \<noteq> [] \<and> hd s = c"
  unfolding startswith_def by (cases s) auto

lemma strip_with_hd:
  assumes "s \<noteq> []" "\<not> P (hd s)"
  shows "strip_with P s \<noteq> [] \<and> hd (strip_with P s) = hd s"
proof -
  obtain x xs where s: "s = x # xs" using assms(1) by (cases s) auto
  have nP: "\<not> P x" using assms(2) s by simp
  have "dropWhile P (rev xs @ [x]) \<noteq> [] \<and> last (dropWhile P (rev xs @ [x])) = x"
    using nP by (simp add: dropWhile_append)
  then show ?thesis
    using nP unfolding strip_with_def s by (simp add: hd_rev)
qed

lemma strip_hd: "s \<noteq> [] \<Longrightarrow> \<not> isspace (hd s) \<Longrightarrow> strip s \<noteq> [] \<and> hd (strip s) = hd s"
  unfolding strip_def by (rule strip_with_hd)

lemma strip_Nil: "strip [] = []"
  by (simp add: strip_def strip_with_def)

text \<open>The first character of the stripped line, which separates the groups of rules.\<close>

lemma lead_heading:
  assumes "startswith line (CHR ''#'' # p)"
  shows "hd (strip line) = CHR ''#''"
proof -
  have "line \<noteq> [] \<and> hd line = CHR ''#''" using assms by (rule startswith_Cons)
  moreover have "\<not> isspace (CHR ''#'')" by (simp add: isspace_def)
  ultimately show ?thesis using strip_hd [of line] by simp
qed

lemma lead_fence:
  assumes "startswith line (CHR ''`'' # p)"
  shows "hd (strip line) = CHR ''`''"
proof -
  have "line \<noteq> [] \<and> hd line = CHR ''`''" using assms by (rule startswith_Cons)
  moreover have "\<not> isspace (CHR ''`'')" by (simp add: isspace_def)
  ultimately show ?thesis using strip_hd [of line] by simp
qed

lemma lead_prompt:
  assumes "rule_of Prompt line"
  shows "hd (strip line) = CHR ''$'' \<or> hd (strip line) = CHR ''s''"
  using assms startswith_Cons [of "strip line" "CHR ''$''" "[]"]
    startswith_Cons [of "strip line" "CHR ''s''" "''udo''"]
  by auto

lemma lead_bullet:
  assumes "rule_of Bullet line"
  shows "hd (strip line) = CHR ''-'' \<or> hd (strip line) = CHR ''*'' \<or> hd (strip line) = CHR ''+''"
  using assms startswith_Cons [of "strip line" "CHR ''-''" "'' ''"]
    startswith_Cons [of "strip line" "CHR ''*''" "'' ''"]
    startswith_Cons [of "strip line" "CHR ''+''" "'' ''"]
  by auto

lemma isdigit_not_isspace: "isdigit c \<Longrightarrow> \<not> isspace c"
  by (auto simp: isdigit_def isspace_def Let_def)

lemma lead_numbered:
  assumes "rule_of Numbered line"
  shows "isdigit (hd (strip line))"
proof -
  have "line \<noteq> []" using assms strip_Nil by auto
  moreover have "\<not> isspace (hd line)" using assms isdigit_not_isspace by simp
  ultimately show ?thesis using strip_hd [of line] assms by simp
qed

lemma not_isdigit_lead:
  "\<not> isdigit (CHR ''#'')" "\<not> isdigit (CHR ''`'')" "\<not> isdigit (CHR ''$'')"
  "\<not> isdigit (CHR ''s'')" "\<not> isdigit (CHR ''-'')" "\<not> isdigit (CHR ''*'')"
  "\<not> isdigit (CHR ''+'')"
  by (simp_all add: isdigit_def)

lemma lead_group_digit:
  assumes "isdigit c"
  shows "lead_group c = 5"
proof -
  have "c \<noteq> CHR ''#''" "c \<noteq> CHR ''`''" "c \<noteq> CHR ''$''" "c \<noteq> CHR ''s''"
    "c \<noteq> CHR ''-''" "c \<noteq> CHR ''*''" "c \<noteq> CHR ''+''"
    using assms not_isdigit_lead by blast+
  then show ?thesis
    using assms by (simp add: lead_group_def)
qed

lemma rule_group:
  assumes "rule_of c line"
  shows "lead_group (hd (strip line)) = group_of c"
proof (cases c)
  case Heading1
  then show ?thesis using assms lead_heading [of line "'' ''"] by (simp add: lead_group_def)
next
  case Heading2
  then show ?thesis using assms lead_heading [of line "''# ''"] by (simp add: lead_group_def)
next
  case Heading3
  then show ?thesis using assms lead_heading [of line "''## ''"] by (simp add: lead_group_def)
next
  case CodeFence
  then show ?thesis using assms lead_fence [of line "''``''"] by (simp add: lead_group_def)
next
  case Prompt
  then show ?thesis using assms lead_prompt [of line] by (auto simp: lead_group_def)
next
  case Bullet
  then show ?thesis using assms lead_bullet [of line] by (auto simp: lead_group_def)
next
  case Numbered
  then show ?thesis using assms lead_numbered [of line] by (simp add: lead_group_digit)
next
  case Unclassified
  then show ?thesis using assms by simp
qed

lemma heading_take3:
  "rule_of Heading1 line \<Longrightarrow> take 2 line = ''# ''"
  "rule_of Heading2 line \<Longrightarrow> take 2 line = ''##'' \<and> take 3 line = ''## ''"
  "rule_of Heading3 line \<Longrightarrow> take 2 line = ''##'' \<and> take 3 line = ''###''"
  by (auto simp: startswith_def prefix_def)

lemma heading_level:
  assumes "rule_of c line" "group_of c = 1"
  shows "c = heading_level line"
proof (cases c)
  case Heading1
  then have "take 2 line = ''# ''" using assms(1) heading_take3(1) by blast
  then show ?thesis using Heading1 by (simp add: heading_level_def)
next
  case Heading2
  then have "take 2 line = ''##'' \<and> take 3 line = ''## ''"
    using assms(1) heading_take3(2) by blast
  then show ?thesis using Heading2 by (simp add: heading_level_def)
next
  case Heading3
  then have "take 2 line = ''##'' \<and> take 3 line = ''###''"
    using assms(1) heading_take3(3) by blast
  then show ?thesis using Heading3 by (simp add: heading_level_def)
qed (use assms(2) in simp_all)

lemma group_of_eq: "group_of c = group_of c' \<Longrightarrow> group_of c \<noteq> 1 \<Longrightarrow> c = c'"
  by (cases c; cases c') simp_all

lemma rule_unique:
  assumes "rule_of c line" "rule_of c' line"
  shows "c = c'"
proof -
  have g: "group_of c = group_of c'"
    using rule_group [OF assms(1)] rule_group [OF assms(2)] by simp
  show ?thesis
  proof (cases "group_of c = 1")
    case True
    then have "c = heading_level line"
      using assms(1) by (intro heading_level)
    moreover have "c' = heading_level line"
      using assms(2) g True by (intro heading_level) simp_all
    ultimately show ?thesis by simp
  next
    case False
    with g show ?thesis by (rule group_of_eq)
  qed
qed

lemma classify_rule: "classify line \<noteq> Unclassified \<Longrightarrow> rule_of (classify line) line"
  unfolding classify_def by (simp split: if_splits)

lemma classify_none: "classify line = Unclassified \<Longrightarrow> \<not> rule_of c line"
  unfolding classify_def by (cases c) (simp_all split: if_splits)

lemma classify_iff:
  assumes "c \<noteq> Unclassified"
  shows "rule_of c line \<longleftrightarrow> classify line = c"
proof
  assume r: "rule_of c line"
  then have "classify line \<noteq> Unclassified" using classify_none by blast
  then have "rule_of (classify line) line" by (rule classify_rule)
  then show "classify line = c" using r rule_unique by blast
next
  assume "classify line = c"
  then show "rule_of c line" using assms classify_rule by blast
qed

lemma format_terminal_line_classify:
  "format_terminal_line line
     = (if classify line = Unclassified then line else style (classify line) @ line @ RESET)"
  unfolding format_terminal_line_def classify_def by simp

text \<open>
  C6. Every line gets exactly one class: the rules of the seven classes exclude each
  other, \<open>classify\<close> tests them in the order headings, code fences, prompts, lists, and
  a line that no rule matches is unclassified. \<open>format_terminal_line\<close> wraps a classified
  line in the style of its class and the reset code and returns an unclassified line
  unchanged.
\<close>

theorem format_terminal_line_by_class:
  "format_terminal_line line
     = (if classify line = Unclassified then line else style (classify line) @ line @ RESET)
   \<and> classify line
     = (case find (\<lambda>c. rule_of c line)
               [Heading1, Heading2, Heading3, CodeFence, Prompt, Bullet, Numbered] of
          Some c \<Rightarrow> c | None \<Rightarrow> Unclassified)
   \<and> (\<forall>c. c \<noteq> Unclassified \<longrightarrow> (rule_of c line \<longleftrightarrow> classify line = c))
   \<and> (\<forall>c c'. rule_of c line \<and> rule_of c' line \<longrightarrow> c = c')
   \<and> (classify line = Unclassified \<longleftrightarrow> (\<forall>c. \<not> rule_of c line))"
proof (intro conjI allI impI)
  show "format_terminal_line line
     = (if classify line = Unclassified then line else style (classify line) @ line @ RESET)"
    by (rule format_terminal_line_classify)
  show "classify line
     = (case find (\<lambda>c. rule_of c line)
               [Heading1, Heading2, Heading3, CodeFence, Prompt, Bullet, Numbered] of
          Some c \<Rightarrow> c | None \<Rightarrow> Unclassified)"
    unfolding classify_def by (simp del: rule_of.simps)
  show "rule_of c line \<longleftrightarrow> classify line = c" if "c \<noteq> Unclassified" for c
    using that by (rule classify_iff)
  show "c = c'" if "rule_of c line \<and> rule_of c' line" for c c'
    using that rule_unique by blast
  show "classify line = Unclassified \<longleftrightarrow> (\<forall>c. \<not> rule_of c line)"
    using classify_none [of line] classify_rule [of line] by blast
qed

theorem format_terminal_line_by_class_witness:
  "format_terminal_line ''## Usage'' = BOLD @ CYAN @ ''## Usage'' @ RESET
   \<and> format_terminal_line ''  $ make install'' = GREEN @ ''  $ make install'' @ RESET
   \<and> format_terminal_line (CHR 0xA0 # ''$ ls'') = GREEN @ (CHR 0xA0 # ''$ ls'') @ RESET
   \<and> format_terminal_line (CHR 0x85 # ''- item'') = CYAN @ (CHR 0x85 # ''- item'') @ RESET
   \<and> format_terminal_line (CHR 0xB2 # ''. x'') = CYAN @ (CHR 0xB2 # ''. x'') @ RESET
   \<and> format_terminal_line ''plain text'' = ''plain text''"
proof -
  have a: "classify ''## Usage'' = Heading2"
    by code_simp
  have b: "classify ''  $ make install'' = Prompt"
    by code_simp
  have c: "classify ''plain text'' = Unclassified"
    by code_simp
  have d: "classify (CHR 0xA0 # ''$ ls'') = Prompt"
    by code_simp
  have e: "classify (CHR 0x85 # ''- item'') = Bullet"
    by code_simp
  have f: "classify (CHR 0xB2 # ''. x'') = Numbered"
    by code_simp
  have "format_terminal_line ''## Usage'' = BOLD @ CYAN @ ''## Usage'' @ RESET"
    using format_terminal_line_by_class [of "''## Usage''", THEN conjunct1]
    by (simp only: a style.simps line_class.simps if_False append_assoc)
  moreover have "format_terminal_line ''  $ make install'' = GREEN @ ''  $ make install'' @ RESET"
    using format_terminal_line_by_class [of "''  $ make install''", THEN conjunct1]
    by (simp only: b style.simps line_class.simps if_False)
  moreover have "format_terminal_line (CHR 0xA0 # ''$ ls'') = GREEN @ (CHR 0xA0 # ''$ ls'') @ RESET"
    using format_terminal_line_by_class [of "CHR 0xA0 # ''$ ls''", THEN conjunct1]
    by (simp only: d style.simps line_class.simps if_False)
  moreover have "format_terminal_line (CHR 0x85 # ''- item'') = CYAN @ (CHR 0x85 # ''- item'') @ RESET"
    using format_terminal_line_by_class [of "CHR 0x85 # ''- item''", THEN conjunct1]
    by (simp only: e style.simps line_class.simps if_False)
  moreover have "format_terminal_line (CHR 0xB2 # ''. x'') = CYAN @ (CHR 0xB2 # ''. x'') @ RESET"
    using format_terminal_line_by_class [of "CHR 0xB2 # ''. x''", THEN conjunct1]
    by (simp only: f style.simps line_class.simps if_False)
  moreover have "format_terminal_line ''plain text'' = ''plain text''"
    using format_terminal_line_by_class [of "''plain text''", THEN conjunct1]
    by (simp only: c if_True simp_thms)
  ultimately show ?thesis by blast
qed

subsection \<open>Line structure\<close>

lemma split_nonempty: "split s sep \<noteq> []"
  by (cases s) (simp_all add: Let_def)

lemma split_no_sep: "l \<in> set (split s sep) \<Longrightarrow> sep \<notin> set l"
proof (induction s arbitrary: l)
  case Nil
  then show ?case by simp
next
  case (Cons x xs)
  obtain h t where ht: "split xs sep = h # t"
    using split_nonempty [of xs sep] by (cases "split xs sep") auto
  show ?case
  proof (cases "x = sep")
    case True
    then show ?thesis using Cons by (auto simp: Let_def)
  next
    case False
    have "l = x # h \<or> l \<in> set t"
      using Cons.prems False ht by (simp add: Let_def)
    moreover have "sep \<notin> set h" "\<And>l. l \<in> set t \<Longrightarrow> sep \<notin> set l"
      using Cons.IH ht by simp_all
    ultimately show ?thesis using False by auto
  qed
qed

lemma split_without_sep: "sep \<notin> set x \<Longrightarrow> split x sep = [x]"
  by (induction x) (auto simp: Let_def)

lemma split_append_sep: "sep \<notin> set x \<Longrightarrow> split (x @ sep # r) sep = x # split r sep"
  by (induction x) (auto simp: Let_def)

lemma split_join:
  assumes "xs \<noteq> []" "\<And>x. x \<in> set xs \<Longrightarrow> sep \<notin> set x"
  shows "split (join [sep] xs) sep = xs"
  using assms
proof (induction "[sep]" xs rule: join.induct)
  case 1
  then show ?case by simp
next
  case (2 x)
  then show ?case by (simp add: split_without_sep)
next
  case (3 x y ys)
  have "split (join [sep] (y # ys)) sep = y # ys"
    using 3 by simp
  moreover have "sep \<notin> set x" using 3 by simp
  ultimately show ?case
    by (simp add: split_append_sep)
qed

lemma NL_not_in_codes:
  "NL \<notin> set RESET" "NL \<notin> set BOLD" "NL \<notin> set GREEN" "NL \<notin> set BLUE"
  "NL \<notin> set YELLOW" "NL \<notin> set CYAN" "NL \<notin> set PURPLE"
  by (simp_all add: NL_def ESC_def RESET_def BOLD_def GREEN_def BLUE_def YELLOW_def
      CYAN_def PURPLE_def)

lemma style_in_styles: "c \<noteq> Unclassified \<Longrightarrow> style c \<in> set styles"
  by (cases c) (simp_all add: styles_def)

lemma NL_not_in_styles: "st \<in> set styles \<Longrightarrow> NL \<notin> set st"
  using NL_not_in_codes by (auto simp: styles_def)

lemma format_terminal_line_shape:
  "format_terminal_line l = l \<or> (\<exists>st \<in> set styles. format_terminal_line l = st @ l @ RESET)"
  using style_in_styles [of "classify l"]
  by (auto simp: format_terminal_line_classify)

lemma NL_format_terminal_line:
  assumes "NL \<notin> set l"
  shows "NL \<notin> set (format_terminal_line l)"
  using format_terminal_line_shape [of l] assms NL_not_in_styles NL_not_in_codes(1)
  by auto

lemma NL_terminal_header:
  assumes "NL \<notin> set name" "h \<in> set (terminal_header name)"
  shows "NL \<notin> set h"
proof -
  have "NL \<noteq> CHR ''=''" by (simp add: NL_def)
  then have "NL \<notin> set (replicate 60 (CHR ''=''))" by simp
  then show ?thesis
    using assms NL_not_in_codes unfolding terminal_header_def by auto
qed

lemma split_format_terminal:
  assumes "NL \<notin> set name"
  shows "split (format_terminal content name) NL
       = terminal_header name @ map format_terminal_line (split content NL)"
  unfolding format_terminal_def
proof (rule split_join)
  show "terminal_header name @ map format_terminal_line (split content NL) \<noteq> []"
    by (simp add: terminal_header_def)
  fix x
  assume "x \<in> set (terminal_header name @ map format_terminal_line (split content NL))"
  then consider "x \<in> set (terminal_header name)"
    | l where "l \<in> set (split content NL)" "x = format_terminal_line l"
    by auto
  then show "NL \<notin> set x"
  proof cases
    case 1
    then show ?thesis using assms NL_terminal_header by blast
  next
    case 2
    then show ?thesis using split_no_sep NL_format_terminal_line by blast
  qed
qed

text \<open>
  C10, as stated: for every content and every file path the output, split at the line
  breaks, is four header lines followed by one line for each line of the content. This
  fails for a file whose name holds a line break, which the header then spreads over
  more lines.
\<close>

theorem format_terminal_lines_counterexample:
  "length (split (format_terminal ''x'' [CHR ''a'', NL, CHR ''b'']) NL)
     \<noteq> 4 + length (split ''x'' NL)"
proof -
  let ?border = "BOLD @ BLUE @ replicate 60 (CHR ''='') @ RESET"
  let ?xs = "[?border, BOLD @ GREEN @ ''a'', ''b'' @ RESET, ?border, [], ''x'']"
  have x: "split ''x'' NL = [''x'']"
    by (simp add: NL_def Let_def)
  have fl: "format_terminal_line ''x'' = ''x''"
    by (simp add: format_terminal_line_def startswith_def strip_def strip_with_def
        isspace_def isdigit_def)
  have "format_terminal ''x'' [CHR ''a'', NL, CHR ''b''] = join [NL] ?xs"
    unfolding format_terminal_def terminal_header_def x by (simp add: fl)
  moreover have "split (join [NL] ?xs) NL = ?xs"
  proof (rule split_join)
    have "NL \<noteq> CHR ''=''" "NL \<noteq> CHR ''a''" "NL \<noteq> CHR ''b''" "NL \<noteq> CHR ''x''"
      by (simp_all add: NL_def)
    then show "NL \<notin> set y" if "y \<in> set ?xs" for y
      using that NL_not_in_codes by auto
  qed simp
  ultimately have "length (split (format_terminal ''x'' [CHR ''a'', NL, CHR ''b'']) NL) = 6"
    by simp
  then show ?thesis
    unfolding x by simp
qed

text \<open>
  C10, amended: for every content and every file path whose name holds no line break,
  the output of \<open>format_terminal\<close>, split at the line breaks, is the four header lines
  (a border, the name of the file, the same border, an empty line) followed by one line
  for each line of the content, in order; each of these is the line of the content
  either unchanged or between one of the fixed styles and the reset code.
\<close>

theorem format_terminal_preserves_lines:
  assumes "NL \<notin> set name"
  shows "split (format_terminal content name) NL
           = terminal_header name @ map format_terminal_line (split content NL)
       \<and> terminal_header name
           = [BOLD @ BLUE @ replicate 60 (CHR ''='') @ RESET, BOLD @ GREEN @ name @ RESET,
              BOLD @ BLUE @ replicate 60 (CHR ''='') @ RESET, []]
       \<and> length (split (format_terminal content name) NL) = 4 + length (split content NL)
       \<and> (\<forall>i < length (split content NL).
             split (format_terminal content name) NL ! (4 + i)
               = format_terminal_line (split content NL ! i)
             \<and> (format_terminal_line (split content NL ! i) = split content NL ! i
                \<or> (\<exists>st \<in> set styles.
                      format_terminal_line (split content NL ! i)
                        = st @ split content NL ! i @ RESET)))"
proof -
  have s: "split (format_terminal content name) NL
           = terminal_header name @ map format_terminal_line (split content NL)"
    using assms by (rule split_format_terminal)
  have h: "length (terminal_header name) = 4"
    by (simp add: terminal_header_def)
  have "split (format_terminal content name) NL ! (4 + i)
          = format_terminal_line (split content NL ! i)"
    if "i < length (split content NL)" for i
    using that h unfolding s by (simp add: nth_append)
  then show ?thesis
    using s h format_terminal_line_shape by (simp add: terminal_header_def)
qed

theorem format_terminal_preserves_lines_witness:
  "split (format_terminal [CHR ''#'', CHR '' '', CHR ''T'', NL, CHR ''t''] ''README.md'') NL
     = [BOLD @ BLUE @ replicate 60 (CHR ''='') @ RESET, BOLD @ GREEN @ ''README.md'' @ RESET,
        BOLD @ BLUE @ replicate 60 (CHR ''='') @ RESET, [],
        BOLD @ YELLOW @ ''# T'' @ RESET, ''t'']"
proof -
  have n: "NL \<notin> set ''README.md''"
    by (simp add: NL_def)
  have l: "split [CHR ''#'', CHR '' '', CHR ''T'', NL, CHR ''t''] NL = [''# T'', ''t'']"
    by (simp add: NL_def Let_def)
  have f: "format_terminal_line ''# T'' = BOLD @ YELLOW @ ''# T'' @ RESET"
    "format_terminal_line ''t'' = ''t''"
    by (simp_all add: format_terminal_line_def startswith_def strip_def strip_with_def
        isspace_def isdigit_def)
  show ?thesis
    using format_terminal_preserves_lines [OF n, of "[CHR ''#'', CHR '' '', CHR ''T'', NL, CHR ''t'']"]
    by (simp only: l f list.map append.simps)
qed

section \<open>Claims about the alias extractor\<close>

lemma contains_char: "contains s [c] \<longleftrightarrow> c \<in> set s"
  by (induction s) auto

lemma section_line_single_hash: "startswith line ''# '' \<Longrightarrow> \<not> startswith line ''##''"
  by (auto simp: startswith_def prefix_def)

lemma alias_line_not_section: "startswith line ''alias '' \<Longrightarrow> \<not> startswith line ''# ''"
  by (auto simp: startswith_def prefix_def)

lemma alias_line_section:
  assumes "is_section_line (strip raw)"
  shows "alias_line (cur, out) raw
       = (if Some (section_label (strip raw)) \<noteq> cur
          then (Some (section_label (strip raw)),
                out @ render_item (Section (section_label (strip raw))))
          else (cur, out))"
  using assms section_line_single_hash [of "strip raw"]
  by (simp add: alias_line_def is_section_line_def section_label_def Let_def)

lemma alias_line_alias:
  assumes "\<not> is_section_line (strip raw)" "is_alias_line (strip raw)"
  shows "alias_line (cur, out) raw
       = (cur, out @ render_item (Alias (alias_name (strip raw)) (alias_command (strip raw))))"
  using assms
  by (simp add: alias_line_def is_section_line_def is_alias_line_def Let_def contains_char
      split_once_def alias_name_def alias_command_def alias_value_def quote_chars_def)

lemma alias_line_other:
  assumes "\<not> is_section_line (strip raw)" "\<not> is_alias_line (strip raw)"
  shows "alias_line (cur, out) raw = (cur, out)"
  using assms
  by (simp add: alias_line_def is_section_line_def is_alias_line_def Let_def contains_char)

lemma foldl_alias_line:
  "snd (foldl alias_line (cur, out) ls) = out @ concat (map render_item (alias_items cur ls))"
proof (induction ls arbitrary: cur out)
  case Nil
  show ?case by simp
next
  case (Cons raw rest)
  consider (sec) "is_section_line (strip raw)"
    | (al) "\<not> is_section_line (strip raw)" "is_alias_line (strip raw)"
    | (other) "\<not> is_section_line (strip raw)" "\<not> is_alias_line (strip raw)"
    by blast
  then show ?case
  proof cases
    case sec
    show ?thesis
    proof (cases "Some (section_label (strip raw)) \<noteq> cur")
      case True
      then show ?thesis
        using sec Cons.IH by (simp add: alias_line_section Let_def)
    next
      case False
      then show ?thesis
        using sec Cons.IH by (simp add: alias_line_section Let_def)
    qed
  next
    case al
    then show ?thesis
      using Cons.IH by (simp add: alias_line_alias Let_def)
  next
    case other
    then show ?thesis
      using Cons.IH by (simp add: alias_line_other Let_def)
  qed
qed

lemma aliases_report_items:
  "aliases_report content
     = join [NL] ([BOLD @ GREEN @ ''Available Aliases:'' @ RESET, []]
                  @ concat (map render_item (alias_items None (split content NL))))"
  unfolding aliases_report_def foldl_alias_line by simp

lemma alias_not_section: "is_alias_line line \<Longrightarrow> \<not> is_section_line line"
  unfolding is_alias_line_def is_section_line_def using alias_line_not_section by blast

lemma aliases_of_items:
  "aliases_of (alias_items cur ls)
     = map (\<lambda>line. (alias_name line, alias_command line)) (filter is_alias_line (map strip ls))"
  by (induction ls arbitrary: cur) (simp_all add: Let_def alias_not_section)

lemma remdups_adj_Cons_tl: "remdups_adj (x # xs) = x # tl (remdups_adj (x # xs))"
  by (metis list.collapse hd_remdups_adj list.sel(1) remdups_adj_Nil_iff list.distinct(1))

lemma sections_of_items_Some:
  "sections_of (alias_items (Some c) ls)
     = tl (remdups_adj (c # map section_label (filter is_section_line (map strip ls))))"
proof (induction ls arbitrary: c)
  case Nil
  show ?case by simp
next
  case (Cons raw rest)
  let ?x = "section_label (strip raw)"
  let ?labels = "map section_label (filter is_section_line (map strip rest))"
  show ?case
  proof (cases "is_section_line (strip raw)")
    case True
    show ?thesis
    proof (cases "?x = c")
      case same: True
      then show ?thesis using True Cons.IH by (simp add: Let_def)
    next
      case False
      have "sections_of (alias_items (Some c) (raw # rest)) = ?x # tl (remdups_adj (?x # ?labels))"
        using True False Cons.IH [of ?x] by (simp add: Let_def)
      also have "\<dots> = remdups_adj (?x # ?labels)"
        by (rule remdups_adj_Cons_tl [symmetric])
      also have "\<dots> = tl (remdups_adj (c # ?x # ?labels))"
        using False by simp
      finally show ?thesis
        using True by simp
    qed
  next
    case False
    then show ?thesis using Cons.IH by (simp add: Let_def)
  qed
qed

lemma sections_of_items_None:
  "sections_of (alias_items None ls)
     = remdups_adj (map section_label (filter is_section_line (map strip ls)))"
proof (induction ls)
  case Nil
  show ?case by simp
next
  case (Cons raw rest)
  let ?x = "section_label (strip raw)"
  let ?labels = "map section_label (filter is_section_line (map strip rest))"
  show ?case
  proof (cases "is_section_line (strip raw)")
    case True
    have "sections_of (alias_items None (raw # rest)) = ?x # tl (remdups_adj (?x # ?labels))"
      using True by (simp add: Let_def sections_of_items_Some)
    also have "\<dots> = remdups_adj (?x # ?labels)"
      by (rule remdups_adj_Cons_tl [symmetric])
    finally show ?thesis
      using True by simp
  next
    case False
    then show ?thesis using Cons.IH by (simp add: Let_def)
  qed
qed

lemma last_dropWhile: "dropWhile P xs \<noteq> [] \<Longrightarrow> last (dropWhile P xs) = last xs"
  by (induction xs) (auto split: if_splits)

lemma strip_with_ends:
  assumes "strip_with P s \<noteq> []"
  shows "\<not> P (hd (strip_with P s)) \<and> \<not> P (last (strip_with P s))"
proof -
  let ?t = "dropWhile P s"
  let ?u = "dropWhile P (rev ?t)"
  have u: "?u \<noteq> []" using assms by (simp add: strip_with_def)
  have t: "?t \<noteq> []"
  proof
    assume e: "?t = []"
    have "?u = []" unfolding e by simp
    with u show False by blast
  qed
  have "\<not> P (hd ?u)" using u by (rule hd_dropWhile)
  moreover have "last ?u = last (rev ?t)" using u by (rule last_dropWhile)
  moreover have "last (rev ?t) = hd ?t" using t by (simp add: last_rev)
  moreover have "\<not> P (hd ?t)" using t by (rule hd_dropWhile)
  ultimately show ?thesis
    using u unfolding strip_with_def by (simp add: hd_rev last_rev)
qed

lemma split_first_eq:
  assumes "c \<in> set s"
  shows "s = takeWhile (\<lambda>x. x \<noteq> c) s @ [c] @ tl (dropWhile (\<lambda>x. x \<noteq> c) s)
       \<and> c \<notin> set (takeWhile (\<lambda>x. x \<noteq> c) s)"
proof -
  have "dropWhile (\<lambda>x. x \<noteq> c) s \<noteq> []" using assms by auto
  moreover from this have "hd (dropWhile (\<lambda>x. x \<noteq> c) s) = c"
    using hd_dropWhile [of "\<lambda>x. x \<noteq> c" s] by simp
  ultimately have "dropWhile (\<lambda>x. x \<noteq> c) s = c # tl (dropWhile (\<lambda>x. x \<noteq> c) s)"
    by (metis list.collapse)
  then have "s = takeWhile (\<lambda>x. x \<noteq> c) s @ c # tl (dropWhile (\<lambda>x. x \<noteq> c) s)"
    by (metis takeWhile_dropWhile_id)
  moreover have "c \<notin> set (takeWhile (\<lambda>x. x \<noteq> c) s)"
    by (auto dest: set_takeWhileD)
  ultimately show ?thesis by simp
qed

text \<open>
  C5, as stated: a line beginning with \<open>#\<close> and a space sets the section, and a single
  layer of quotes is removed from the value of an alias. The program removes the white
  space around a line before it looks at it, so the line that consists of \<open>#\<close> and a space
  sets no section and prints nothing; and it removes every quote character at both ends
  of a value, so the value \<open>"'x'"\<close> yields the command \<open>x\<close> and not \<open>'x'\<close>.
\<close>

theorem aliases_report_counterexample:
  "aliases_report ''# '' = join [NL] [BOLD @ GREEN @ ''Available Aliases:'' @ RESET, []]
   \<and> aliases_report (''alias q='' @ [CHR 0x22, CHR 0x27] @ ''x'' @ [CHR 0x27, CHR 0x22])
     = join [NL] [BOLD @ GREEN @ ''Available Aliases:'' @ RESET, [],
                  ''  '' @ CYAN @ ''q              '' @ RESET @ '' x'']
   \<and> strip_one_quote_layer ([CHR 0x22, CHR 0x27] @ ''x'' @ [CHR 0x27, CHR 0x22])
     = [CHR 0x27] @ ''x'' @ [CHR 0x27]"
proof -
  have a: "split ''# '' NL = [''# '']"
    by (simp add: NL_def Let_def)
  have b: "split (''alias q='' @ [CHR 0x22, CHR 0x27] @ ''x'' @ [CHR 0x27, CHR 0x22]) NL
         = [''alias q='' @ [CHR 0x22, CHR 0x27] @ ''x'' @ [CHR 0x27, CHR 0x22]]"
    by (simp add: NL_def Let_def)
  have c: "alias_items None [''# ''] = []"
    by code_simp
  have d: "alias_items None [''alias q='' @ [CHR 0x22, CHR 0x27] @ ''x'' @ [CHR 0x27, CHR 0x22]]
         = [Alias ''q'' ''x'']"
    by code_simp
  have e: "ljust ''q'' 15 = ''q              ''"
    by code_simp
  have f: "strip_one_quote_layer ([CHR 0x22, CHR 0x27] @ ''x'' @ [CHR 0x27, CHR 0x22])
         = [CHR 0x27] @ ''x'' @ [CHR 0x27]"
    by code_simp
  show ?thesis
    unfolding aliases_report_items a b c d f by (simp add: e)
qed

text \<open>
  C5, amended: the alias extractor scans the lines in order, each with the white space
  around it removed. A line that then begins with \<open>#\<close> and a space (hence not with \<open>##\<close>)
  gives the current section, which is printed exactly when it differs from the section
  before: the sections printed are the labels of the section lines with adjacent
  repetitions removed. A line that then begins with \<open>alias\<close> and a space and has a \<open>=\<close>
  after this prefix is split at its first \<open>=\<close>: the name is the part before it without
  surrounding white space, the command is the part after it without any quote character
  at its two ends. Every other line, an alias line without \<open>=\<close> among them, yields
  nothing. The line \<open>alias ll='ls -la'\<close> yields the name \<open>ll\<close> and the command \<open>ls -la\<close>, and
  a line \<open># File Operations\<close> followed by two alias lines yields the section once and the
  two aliases after it.
\<close>

theorem aliases_report_sections_and_aliases:
  "aliases_report content
     = join [NL] ([BOLD @ GREEN @ ''Available Aliases:'' @ RESET, []]
                  @ concat (map render_item (alias_items None (split content NL))))
   \<and> sections_of (alias_items None ls)
     = remdups_adj (map section_label (filter is_section_line (map strip ls)))
   \<and> aliases_of (alias_items None ls)
     = map (\<lambda>line. (alias_name line, alias_command line)) (filter is_alias_line (map strip ls))
   \<and> (is_section_line line \<longrightarrow> \<not> startswith line ''##'' \<and> \<not> is_alias_line line)
   \<and> (is_alias_line line \<longrightarrow>
        drop 6 line = takeWhile (\<lambda>c. c \<noteq> CHR ''='') (drop 6 line) @ ''='' @ alias_value line
        \<and> CHR ''='' \<notin> set (takeWhile (\<lambda>c. c \<noteq> CHR ''='') (drop 6 line))
        \<and> alias_name line = strip (takeWhile (\<lambda>c. c \<noteq> CHR ''='') (drop 6 line))
        \<and> alias_command line = strip_chars (alias_value line) [CHR 0x27, CHR 0x22])
   \<and> (alias_name line \<noteq> [] \<longrightarrow>
        \<not> isspace (hd (alias_name line)) \<and> \<not> isspace (last (alias_name line)))
   \<and> (alias_command line \<noteq> [] \<longrightarrow>
        hd (alias_command line) \<notin> {CHR 0x27, CHR 0x22}
        \<and> last (alias_command line) \<notin> {CHR 0x27, CHR 0x22})
   \<and> alias_items None [''alias ll='' @ [CHR 0x27] @ ''ls -la'' @ [CHR 0x27]]
     = [Alias ''ll'' ''ls -la'']
   \<and> alias_items None [''# File Operations'', ''alias ll='' @ [CHR 0x27] @ ''ls -la'' @ [CHR 0x27],
                        ''alias la='' @ [CHR 0x27] @ ''ls -A'' @ [CHR 0x27]]
     = [Section ''File Operations'', Alias ''ll'' ''ls -la'', Alias ''la'' ''ls -A'']"
proof (intro conjI impI)
  show "aliases_report content
     = join [NL] ([BOLD @ GREEN @ ''Available Aliases:'' @ RESET, []]
                  @ concat (map render_item (alias_items None (split content NL))))"
    by (rule aliases_report_items)
  show "sections_of (alias_items None ls)
     = remdups_adj (map section_label (filter is_section_line (map strip ls)))"
    by (rule sections_of_items_None)
  show "aliases_of (alias_items None ls)
     = map (\<lambda>line. (alias_name line, alias_command line)) (filter is_alias_line (map strip ls))"
    by (rule aliases_of_items)
  show "\<not> startswith line ''##''" if "is_section_line line"
    using that section_line_single_hash unfolding is_section_line_def by blast
  show "\<not> is_alias_line line" if "is_section_line line"
    using that alias_not_section by blast
  show "drop 6 line = takeWhile (\<lambda>c. c \<noteq> CHR ''='') (drop 6 line) @ ''='' @ alias_value line"
    if "is_alias_line line"
    using that split_first_eq [of "CHR ''=''" "drop 6 line"]
    unfolding is_alias_line_def alias_value_def by simp
  show "CHR ''='' \<notin> set (takeWhile (\<lambda>c. c \<noteq> CHR ''='') (drop 6 line))"
    by (auto dest: set_takeWhileD)
  show "alias_name line = strip (takeWhile (\<lambda>c. c \<noteq> CHR ''='') (drop 6 line))"
    by (simp add: alias_name_def)
  show "alias_command line = strip_chars (alias_value line) [CHR 0x27, CHR 0x22]"
    by (simp add: alias_command_def quote_chars_def)
  show "\<not> isspace (hd (alias_name line))" "\<not> isspace (last (alias_name line))"
    if "alias_name line \<noteq> []"
    using that strip_with_ends [of isspace "takeWhile (\<lambda>c. c \<noteq> CHR ''='') (drop 6 line)"]
    unfolding alias_name_def strip_def by simp_all
  have q: "alias_command line = strip_with (\<lambda>c. c \<in> {CHR 0x27, CHR 0x22}) (alias_value line)"
    by (simp add: alias_command_def strip_chars_def quote_chars_def)
  show "hd (alias_command line) \<notin> {CHR 0x27, CHR 0x22}"
    "last (alias_command line) \<notin> {CHR 0x27, CHR 0x22}"
    if "alias_command line \<noteq> []"
    using that strip_with_ends [of "\<lambda>c. c \<in> {CHR 0x27, CHR 0x22}" "alias_value line"]
    unfolding q by blast+
  show "alias_items None [''alias ll='' @ [CHR 0x27] @ ''ls -la'' @ [CHR 0x27]]
     = [Alias ''ll'' ''ls -la'']"
    by code_simp
  show "alias_items None [''# File Operations'', ''alias ll='' @ [CHR 0x27] @ ''ls -la'' @ [CHR 0x27],
                        ''alias la='' @ [CHR 0x27] @ ''ls -A'' @ [CHR 0x27]]
     = [Section ''File Operations'', Alias ''ll'' ''ls -la'', Alias ''la'' ''ls -A'']"
    by code_simp
qed

theorem aliases_report_sections_and_aliases_witness:
  "aliases_report (''# File Operations'' @ [NL] @ ''alias ll='' @ [CHR 0x27] @ ''ls -la''
                   @ [CHR 0x27, NL] @ ''alias la=ls -A'' @ [NL] @ ''alias broken'' @ [NL]
                   @ ''# File Operations'')
     = join [NL] [BOLD @ GREEN @ ''Available Aliases:'' @ RESET, [],
                  BOLD @ YELLOW @ ''File Operations'' @ RESET, [],
                  ''  '' @ CYAN @ ''ll             '' @ RESET @ '' ls -la'',
                  ''  '' @ CYAN @ ''la             '' @ RESET @ '' ls -A'']
   \<and> \<not> startswith ''# File Operations'' ''##''
   \<and> alias_name (''alias ll='' @ [CHR 0x27] @ ''ls -la'' @ [CHR 0x27]) = ''ll''
   \<and> alias_command (''alias ll='' @ [CHR 0x27] @ ''ls -la'' @ [CHR 0x27]) = ''ls -la''"
proof -
  let ?content = "''# File Operations'' @ [NL] @ ''alias ll='' @ [CHR 0x27] @ ''ls -la''
                   @ [CHR 0x27, NL] @ ''alias la=ls -A'' @ [NL] @ ''alias broken'' @ [NL]
                   @ ''# File Operations''"
  let ?ll = "''alias ll='' @ [CHR 0x27] @ ''ls -la'' @ [CHR 0x27]"
  have s: "split ?content NL
         = [''# File Operations'', ?ll, ''alias la=ls -A'', ''alias broken'', ''# File Operations'']"
    by (simp add: NL_def Let_def)
  have i: "alias_items None
             [''# File Operations'', ?ll, ''alias la=ls -A'', ''alias broken'', ''# File Operations'']
         = [Section ''File Operations'', Alias ''ll'' ''ls -la'', Alias ''la'' ''ls -A'']"
    by code_simp
  have l: "ljust ''ll'' 15 = ''ll             ''" "ljust ''la'' 15 = ''la             ''"
    by code_simp+
  have sec: "is_section_line ''# File Operations''"
    by (simp add: is_section_line_def startswith_def)
  have al: "is_alias_line ?ll"
    by (simp add: is_alias_line_def startswith_def)
  have "aliases_report ?content
     = join [NL] [BOLD @ GREEN @ ''Available Aliases:'' @ RESET, [],
                  BOLD @ YELLOW @ ''File Operations'' @ RESET, [],
                  ''  '' @ CYAN @ ''ll             '' @ RESET @ '' ls -la'',
                  ''  '' @ CYAN @ ''la             '' @ RESET @ '' ls -A'']"
    using aliases_report_sections_and_aliases [where content = ?content, THEN conjunct1]
    unfolding s i by (simp add: l)
  moreover have "\<not> startswith ''# File Operations'' ''##''"
    using aliases_report_sections_and_aliases [where line = "''# File Operations''"] sec
    by blast
  moreover have "alias_name ?ll = ''ll''"
    using aliases_report_sections_and_aliases [where line = ?ll] al
    by (simp add: strip_def strip_with_def isspace_def)
  moreover have "alias_command ?ll = ''ls -la''"
    using aliases_report_sections_and_aliases [where line = ?ll] al
    by (simp add: alias_value_def strip_chars_def strip_with_def)
  ultimately show ?thesis by blast
qed

section \<open>Claims about the main program\<close>










lemma main_aliases:
  assumes "path_exists e (run_dir a e)" "arg_aliases a" "get_aliases e = Inr report"
  shows "main a e
       = (if arg_no_pager a \<or> arg_format a \<noteq> Terminal then ([Print report], Returned)
          else display_with_pager e report)"
  using assms unfolding main_def Let_def by simp









lemmas example_defs = example_env_def example_args_def run_dir_def given_def
  find_dotfiles_dir_def candidates_def glob_def get_aliases_def main_def


lemma example_find_dotfiles_dir: "find_dotfiles_dir example_env = ''/work''"
  by (simp add: example_defs)

lemma example_get_aliases: "get_aliases example_env = Inr ''No .bash_aliases file found.''"
  unfolding get_aliases_def example_find_dotfiles_dir Let_def
  by (simp add: example_env_def)

lemma example_main:
  "main (example_args\<lparr>arg_file := f\<rparr>) example_env
     = ([Print ''No .bash_aliases file found.''], Returned)"
proof -
  have "run_dir (example_args\<lparr>arg_file := f\<rparr>) example_env = ''/d''"
    by (simp add: example_defs)
  then have "path_exists example_env (run_dir (example_args\<lparr>arg_file := f\<rparr>) example_env)"
    by (simp add: example_env_def)
  moreover have "arg_aliases (example_args\<lparr>arg_file := f\<rparr>)"
    by (simp add: example_args_def)
  ultimately show ?thesis
    using main_aliases [OF _ _ example_get_aliases, of "example_args\<lparr>arg_file := f\<rparr>"]
    by (simp add: example_args_def)
qed




text \<open>
  C8. With \<open>--aliases\<close> the directory given with \<open>--dir\<close> is checked for existence and then
  not used: \<open>get_aliases\<close> resolves a directory of its own. In the example environment the
  run \<open>--dir /d --aliases --no-pager\<close> reports that there is no alias file, although
  \<open>/d/.bash_aliases\<close> exists, because the resolver falls back to the current directory
  \<open>/work\<close>; the same call of \<open>get_aliases\<close> with the variable \<open>DOTFILES_DIR\<close> set to \<open>/d\<close> lists
  the alias.
\<close>

theorem main_aliases_ignores_dir:
  "run_dir (example_args\<lparr>arg_file := None\<rparr>) example_env = ''/d''
   \<and> path_exists example_env (joinpath example_env ''/d'' ''.bash_aliases'')
   \<and> find_dotfiles_dir example_env = ''/work''
   \<and> main (example_args\<lparr>arg_file := None\<rparr>) example_env
       = ([Print ''No .bash_aliases file found.''], Returned)
   \<and> get_aliases (example_env\<lparr>DOTFILES_DIR := Some ''/d''\<rparr>)
       = Inr (aliases_report (''alias ll='' @ [CHR 0x27] @ ''ls -la'' @ [CHR 0x27]))"
proof -
  have "run_dir (example_args\<lparr>arg_file := None\<rparr>) example_env = ''/d''"
    by (simp add: example_defs)
  moreover have "path_exists example_env (joinpath example_env ''/d'' ''.bash_aliases'')"
    by (simp add: example_env_def)
  moreover have "find_dotfiles_dir (example_env\<lparr>DOTFILES_DIR := Some ''/d''\<rparr>) = ''/d''"
    by (simp add: example_defs)
  then have "get_aliases (example_env\<lparr>DOTFILES_DIR := Some ''/d''\<rparr>)
       = Inr (aliases_report (''alias ll='' @ [CHR 0x27] @ ''ls -la'' @ [CHR 0x27]))"
    unfolding get_aliases_def Let_def by (simp add: example_env_def read_file_def)
  ultimately show ?thesis
    using example_find_dotfiles_dir example_main [of None] by simp
qed



end
